theory Spec2Isabelle
  imports Complex_Main "HOL-Library.Word"
begin

unbundle bit_operations_syntax

section \<open>Values shared by the whole development\<close>

text \<open>
  JavaScript numbers that carry times, bitrates and pixel sizes are modelled as the reals
  they denote. A value that may be \<^verbatim>\<open>undefined\<close> or \<^verbatim>\<open>null\<close> is an option. JavaScript's truth
  test on such a value is \<open>truthyNum\<close>: \<^verbatim>\<open>undefined\<close>, \<^verbatim>\<open>null\<close> and \<open>0\<close> are all false.
\<close>

datatype error = TypeError | RangeError

definition truthyNum :: "real option \<Rightarrow> bool" where
  "truthyNum v = (case v of None \<Rightarrow> False | Some x \<Rightarrow> x \<noteq> 0)"

text \<open>
  A \<^verbatim>\<open>TimeRanges\<close> object is the list of its \<open>(start(i), end(i))\<close> pairs, in index order.
\<close>

type_synonym timeRanges = "(real \<times> real) list"

section \<open>Double precision arithmetic\<close>

text \<open>
  A product or a difference of two numbers is the exact result rounded to the nearest double
  (IEEE 754 binary64, ties to the even significand), and an infinity when the rounded
  result is out of range. The effective bitrate \<^verbatim>\<open>BANDWIDTH * bandwidthVariance\<close>, the
  duration \<^verbatim>\<open>segment.end - previousSegment.end\<close> and the timeout of a segment request are
  computed so. The sums and differences that only enter a comparison or are handed on (the
  fudge factor around a buffered range, the clock plus the blacklist time, the limit of a
  buffer removal, the difference a comparator returns) are written as the exact ones.
\<close>

datatype double = NegativeInfinity | Finite real | PositiveInfinity

text \<open>The number of binary digits of a natural number.\<close>

fun bitLength :: "nat \<Rightarrow> nat" where
  "bitLength n = (if n = 0 then 0 else Suc (bitLength (n div 2)))"

declare bitLength.simps [simp del]

definition twoTo :: "int \<Rightarrow> real" where
  "twoTo k = (if 0 \<le> k then 2 ^ nat k else 1 / 2 ^ nat (- k))"

text \<open>
  The binary exponent of \<open>x \<noteq> 0\<close>, the integer \<open>k\<close> with \<open>2 ^ k \<le> \<bar>x\<bar> < 2 ^ (k + 1)\<close>: from
  the digits of the integer part when \<open>\<bar>x\<bar> \<ge> 1\<close>, and of the inverse otherwise.
\<close>

definition binaryExponent :: "real \<Rightarrow> int" where
  "binaryExponent x =
     (if 1 \<le> \<bar>x\<bar> then int (bitLength (nat \<lfloor>\<bar>x\<bar>\<rfloor>)) - 1
      else - int (bitLength (nat (\<lceil>1 / \<bar>x\<bar>\<rceil> - 1))))"

text \<open>The nearest integer, the even one of the two when \<open>x\<close> lies half way.\<close>

definition roundHalfEven :: "real \<Rightarrow> int" where
  "roundHalfEven x =
     (let n = \<lfloor>x\<rfloor>; r = x - of_int n
      in if r < 1 / 2 then n
         else if 1 / 2 < r then n + 1
         else if even n then n else n + 1)"

text \<open>
  A double has a significand of 53 binary digits, so the unit in the last place of \<open>x\<close> is
  2 to the exponent of \<open>x\<close> less 52, and never less than \<open>2 ^ - 1074\<close>, the least positive
  double. \<open>x\<close> is rounded to a multiple of that unit. The doubles end below \<open>2 ^ 1024\<close>.
\<close>

definition roundToDouble :: "real \<Rightarrow> double" where
  "roundToDouble x =
     (if x = 0 then Finite 0
      else
        (let e = max (binaryExponent x - 52) (- 1074);
             m = roundHalfEven (\<bar>x\<bar> / twoTo e);
             y = of_int m * twoTo e
         in if 2 ^ 1024 \<le> y then (if 0 < x then PositiveInfinity else NegativeInfinity)
            else Finite (if 0 < x then y else - y)))"

text \<open>\<^verbatim>\<open>x * y\<close> and \<^verbatim>\<open>x - y\<close> on two finite numbers.\<close>

definition timesDouble :: "real \<Rightarrow> real \<Rightarrow> double" where
  "timesDouble x y = roundToDouble (x * y)"

definition minusDouble :: "real \<Rightarrow> real \<Rightarrow> double" where
  "minusDouble x y = roundToDouble (x - y)"

text \<open>\<^verbatim>\<open>d * c\<close> for a number \<open>d\<close> that may be infinite and a constant \<open>c > 0\<close>.\<close>

definition scaleDouble :: "double \<Rightarrow> real \<Rightarrow> double" where
  "scaleDouble d c =
     (case d of
        NegativeInfinity \<Rightarrow> NegativeInfinity
      | Finite x \<Rightarrow> timesDouble x c
      | PositiveInfinity \<Rightarrow> PositiveInfinity)"

text \<open>\<^verbatim>\<open>d < y\<close> for a finite \<open>y\<close>.\<close>

definition lessDouble :: "double \<Rightarrow> real \<Rightarrow> bool" where
  "lessDouble d y =
     (case d of
        NegativeInfinity \<Rightarrow> True
      | Finite x \<Rightarrow> x < y
      | PositiveInfinity \<Rightarrow> False)"

section \<open>\<^verbatim>\<open>Hls.findSoleUncommonTimeRangesEnd_\<close>\<close>

text \<open>
  The closure \<^verbatim>\<open>overlapsCurrentEnd\<close> reads the variable \<^verbatim>\<open>end\<close> of the enclosing function;
  here it is the first argument.
\<close>

definition overlapsCurrentEnd :: "real \<Rightarrow> real \<times> real \<Rightarrow> bool" where
  "overlapsCurrentEnd e sp = (fst sp \<le> e \<and> snd sp \<ge> e)"

text \<open>The first loop: every range of \<^verbatim>\<open>original\<close> is pushed on \<^verbatim>\<open>edges\<close>.\<close>

fun saveEdges :: "timeRanges \<Rightarrow> (real \<times> real) list \<Rightarrow> (real \<times> real) list" where
  "saveEdges [] edges = edges"
| "saveEdges ((start, e) # rest) edges = saveEdges rest (edges @ [(start, e)])"

text \<open>
  The second loop: the end of a range of \<^verbatim>\<open>update\<close> is pushed on \<^verbatim>\<open>result\<close> unless
  \<^verbatim>\<open>edges.some(overlapsCurrentEnd)\<close>.
\<close>

fun uncommonEnds :: "(real \<times> real) list \<Rightarrow> timeRanges \<Rightarrow> real list \<Rightarrow> real list" where
  "uncommonEnds edges [] result = result"
| "uncommonEnds edges ((start, e) # rest) result =
     (if list_ex (overlapsCurrentEnd e) edges then uncommonEnds edges rest result
      else uncommonEnds edges rest (result @ [e]))"

definition findSoleUncommonTimeRangesEnd ::
  "timeRanges option \<Rightarrow> timeRanges option \<Rightarrow> real option" where
  "findSoleUncommonTimeRangesEnd original update =
     (let edges = (case original of None \<Rightarrow> [] | Some r \<Rightarrow> saveEdges r []);
          result = (case update of None \<Rightarrow> [] | Some r \<Rightarrow> uncommonEnds edges r [])
      in if length result \<noteq> 1 then None else Some (result ! 0))"

text \<open>
  The words of the specification: an end-point is covered when it lies in the span of some
  range of \<open>before\<close>. A missing argument holds no range.
\<close>

definition rangesOf :: "timeRanges option \<Rightarrow> timeRanges" where
  "rangesOf r = (case r of None \<Rightarrow> [] | Some x \<Rightarrow> x)"

definition coveredBy :: "timeRanges \<Rightarrow> real \<Rightarrow> bool" where
  "coveredBy before e = (\<exists>sp \<in> set before. fst sp \<le> e \<and> e \<le> snd sp)"

section \<open>\<^verbatim>\<open>updateSegmentMetadata\<close>\<close>

text \<open>
  Objects that several places may hold (keys, playlists) are addressed by a reference.
\<close>

type_synonym ref = nat

record byterange =
  br_ref :: ref
  br_offset :: nat
  br_length :: nat

record segment =
  seg_uri :: string
  seg_duration :: "double option"
  seg_end :: "real option"
  seg_byterange :: "byterange option"
  seg_key :: "ref option"
  seg_discontinuity :: bool

record resolution =
  res_width :: "real option"
  res_height :: "real option"

record attributes =
  BANDWIDTH :: "real option"
  RESOLUTION :: "resolution option"
  CODECS :: "string option"

text \<open>\<^verbatim>\<open>excludeUntil\<close> is a number of milliseconds or \<^verbatim>\<open>Infinity\<close>.\<close>

datatype number = Num real | Infinity

record playlist =
  pl_uri :: "string option"
  pl_attributes :: "attributes option"
  excludeUntil :: "number option"
  segments :: "segment list option"
  mediaSequence :: int
  endList :: bool
  discontinuityStarts :: "nat list"

text \<open>
  \<^verbatim>\<open>playlist.segments[i]\<close>: an index outside the array reads \<^verbatim>\<open>undefined\<close>.
\<close>

definition segmentAt :: "segment list \<Rightarrow> int \<Rightarrow> segment option" where
  "segmentAt segs i = (if 0 \<le> i \<and> i < int (length segs) then Some (segs ! nat i) else None)"

text \<open>
  The function mutates the segment in place; the model returns the playlist after the call.
  Reading \<^verbatim>\<open>playlist.segments[segmentIndex]\<close> on a playlist without a segment list throws.
  The duration of the first segment is its end; that of a later one is the difference the
  subtraction \<^verbatim>\<open>segment.end - previousSegment.end\<close> yields, a double.
\<close>

definition updateSegmentMetadata ::
  "playlist option \<Rightarrow> int \<Rightarrow> real option \<Rightarrow> error + playlist option" where
  "updateSegmentMetadata playlist segmentIndex segmentEnd =
     (case playlist of
        None \<Rightarrow> Inr None
      | Some pl \<Rightarrow>
          (case segments pl of
             None \<Rightarrow> Inl TypeError
           | Some segs \<Rightarrow>
               (let segment = segmentAt segs segmentIndex;
                    previousSegment = segmentAt segs (segmentIndex - 1)
                in case segment of
                     None \<Rightarrow> Inr (Some pl)
                   | Some seg \<Rightarrow>
                       if truthyNum segmentEnd then
                         (let seg1 = seg\<lparr>seg_end := segmentEnd\<rparr>;
                              seg2 =
                                (case previousSegment of
                                   None \<Rightarrow> seg1\<lparr>seg_duration := map_option Finite (seg_end seg1)\<rparr>
                                 | Some prev \<Rightarrow>
                                     (case (seg_end seg1, seg_end prev) of
                                        (Some e, Some pe) \<Rightarrow>
                                          if pe \<noteq> 0
                                          then seg1\<lparr>seg_duration := Some (minusDouble e pe)\<rparr>
                                          else seg1
                                      | _ \<Rightarrow> seg1))
                          in Inr (Some (pl\<lparr>segments := Some (segs[nat segmentIndex := seg2])\<rparr>)))
                       else Inr (Some pl))))"

section \<open>The comparators and \<^verbatim>\<open>selectPlaylist\<close>\<close>

text \<open>
  \<^verbatim>\<open>Number.MAX_VALUE\<close>, the fudge factor on advertised bitrates and the blacklist time in
  milliseconds. The literal \<^verbatim>\<open>1.2\<close> denotes the double nearest to 1.2, which is
  \<open>5404319552844595 / 2 ^ 52\<close>.
\<close>

definition MAX_VALUE :: real where
  "MAX_VALUE = 2 ^ 1024 - 2 ^ 971"

definition bandwidthVariance :: real where
  "bandwidthVariance = 5404319552844595 / 4503599627370496"

definition blacklistDuration :: real where
  "blacklistDuration = 5 * 60 * 1000"

text \<open>
  \<^verbatim>\<open>x.attributes && x.attributes.BANDWIDTH\<close>: the bandwidth when the playlist has attributes and
  the attribute passes the truth test.
\<close>

definition declaredBandwidth :: "playlist \<Rightarrow> real option" where
  "declaredBandwidth p =
     (case pl_attributes p of
        None \<Rightarrow> None
      | Some a \<Rightarrow> (case BANDWIDTH a of
                    None \<Rightarrow> None
                  | Some b \<Rightarrow> if b \<noteq> 0 then Some b else None))"

text \<open>
  \<^verbatim>\<open>x.attributes && x.attributes.RESOLUTION && x.attributes.RESOLUTION.width\<close>.
\<close>

definition declaredWidth :: "playlist \<Rightarrow> real option" where
  "declaredWidth p =
     (case pl_attributes p of
        None \<Rightarrow> None
      | Some a \<Rightarrow> (case RESOLUTION a of
                    None \<Rightarrow> None
                  | Some r \<Rightarrow> (case res_width r of
                                None \<Rightarrow> None
                              | Some w \<Rightarrow> if w \<noteq> 0 then Some w else None)))"

text \<open>\<^verbatim>\<open>v || window.Number.MAX_VALUE\<close> on a value the steps above left undefined or truthy.\<close>

definition orMaxValue :: "real option \<Rightarrow> real" where
  "orMaxValue v = (case v of None \<Rightarrow> MAX_VALUE | Some x \<Rightarrow> if x \<noteq> 0 then x else MAX_VALUE)"

definition comparePlaylistBandwidth :: "playlist \<Rightarrow> playlist \<Rightarrow> real" where
  "comparePlaylistBandwidth left right =
     (let leftBandwidth = orMaxValue (declaredBandwidth left);
          rightBandwidth = orMaxValue (declaredBandwidth right)
      in leftBandwidth - rightBandwidth)"

text \<open>
  When the two widths are equal the comparator reads \<^verbatim>\<open>left.attributes.BANDWIDTH\<close> and then
  \<^verbatim>\<open>right.attributes.BANDWIDTH\<close> with no test that \<^verbatim>\<open>attributes\<close> exists: a playlist without
  attributes makes it throw.
\<close>

definition comparePlaylistResolution :: "playlist \<Rightarrow> playlist \<Rightarrow> error + real" where
  "comparePlaylistResolution left right =
     (let leftWidth = orMaxValue (declaredWidth left);
          rightWidth = orMaxValue (declaredWidth right)
      in if leftWidth = rightWidth then
           (case pl_attributes left of
              None \<Rightarrow> Inl TypeError
            | Some la \<Rightarrow>
                (case BANDWIDTH la of
                   None \<Rightarrow> Inr (leftWidth - rightWidth)
                 | Some lb \<Rightarrow>
                     if lb = 0 then Inr (leftWidth - rightWidth)
                     else (case pl_attributes right of
                             None \<Rightarrow> Inl TypeError
                           | Some ra \<Rightarrow>
                               (case BANDWIDTH ra of
                                  None \<Rightarrow> Inr (leftWidth - rightWidth)
                                | Some rb \<Rightarrow>
                                    if rb = 0 then Inr (leftWidth - rightWidth)
                                    else Inr (lb - rb)))))
         else Inr (leftWidth - rightWidth))"

text \<open>
  \<^verbatim>\<open>Array.prototype.sort\<close> with a comparator is modelled as the stable insertion sort: an
  element goes before the first element it does not compare greater than. A comparator
  that throws ends the sort.
\<close>

fun insortBy :: "('a \<Rightarrow> 'a \<Rightarrow> error + real) \<Rightarrow> 'a \<Rightarrow> 'a list \<Rightarrow> error + 'a list" where
  "insortBy cmp x [] = Inr [x]"
| "insortBy cmp x (y # ys) =
     (case cmp x y of
        Inl e \<Rightarrow> Inl e
      | Inr c \<Rightarrow>
          if c \<le> 0 then Inr (x # y # ys)
          else (case insortBy cmp x ys of Inl e \<Rightarrow> Inl e | Inr r \<Rightarrow> Inr (y # r)))"

fun sortBy :: "('a \<Rightarrow> 'a \<Rightarrow> error + real) \<Rightarrow> 'a list \<Rightarrow> error + 'a list" where
  "sortBy cmp [] = Inr []"
| "sortBy cmp (x # xs) =
     (case sortBy cmp xs of Inl e \<Rightarrow> Inl e | Inr s \<Rightarrow> insortBy cmp x s)"

text \<open>
  The filter on \<^verbatim>\<open>excludeUntil\<close>: a playlist without the field is kept, otherwise it is kept
  when \<^verbatim>\<open>now >= localVariant.excludeUntil\<close>.
\<close>

definition notExcluded :: "real \<Rightarrow> playlist \<Rightarrow> bool" where
  "notExcluded now localVariant =
     (case excludeUntil localVariant of
        None \<Rightarrow> True
      | Some (Num t) \<Rightarrow> now \<ge> t
      | Some Infinity \<Rightarrow> False)"

text \<open>
  The first \<^verbatim>\<open>while (i--)\<close> loop walks \<^verbatim>\<open>sortedPlaylists\<close> from its last element to its
  first: the list argument is the reversed array. The state is \<^verbatim>\<open>bandwidthPlaylists\<close> and
  \<^verbatim>\<open>bandwidthBestVariant\<close>. The playlists are reached through \<open>get\<close>, so that the same
  algorithm runs on playlist values and on references into a store.
\<close>

fun bandwidthLoop ::
  "('a \<Rightarrow> playlist) \<Rightarrow> real \<Rightarrow> 'a list \<Rightarrow> 'a list \<times> 'a option \<Rightarrow> 'a list \<times> 'a option" where
  "bandwidthLoop get bandwidth [] st = st"
| "bandwidthLoop get bandwidth (variant # rest) (bandwidthPlaylists, bandwidthBestVariant) =
     (case declaredBandwidth (get variant) of
        None \<Rightarrow> bandwidthLoop get bandwidth rest (bandwidthPlaylists, bandwidthBestVariant)
      | Some b \<Rightarrow>
          (let effectiveBitrate = timesDouble b bandwidthVariance
           in if lessDouble effectiveBitrate bandwidth then
                bandwidthLoop get bandwidth rest
                  (bandwidthPlaylists @ [variant],
                   (case bandwidthBestVariant of None \<Rightarrow> Some variant | Some best \<Rightarrow> Some best))
              else bandwidthLoop get bandwidth rest (bandwidthPlaylists, bandwidthBestVariant)))"

text \<open>
  \<^verbatim>\<open>attributes.RESOLUTION\<close> with a truthy width and a truthy height, as the second loop tests
  it.
\<close>

definition declaredResolution :: "playlist \<Rightarrow> (real \<times> real) option" where
  "declaredResolution p =
     (case pl_attributes p of
        None \<Rightarrow> None
      | Some a \<Rightarrow>
          (case RESOLUTION a of
             None \<Rightarrow> None
           | Some r \<Rightarrow>
               (case (res_width r, res_height r) of
                  (Some w, Some h) \<Rightarrow> if w \<noteq> 0 \<and> h \<noteq> 0 then Some (w, h) else None
                | _ \<Rightarrow> None)))"

text \<open>
  The player's width and height come from \<^verbatim>\<open>parseInt\<close>, which yields \<^verbatim>\<open>NaN\<close> (here \<open>None\<close>)
  when there is no element or no style: every comparison with it is false.
\<close>

definition ltDim :: "real \<Rightarrow> real option \<Rightarrow> bool" where
  "ltDim x d = (case d of None \<Rightarrow> False | Some y \<Rightarrow> x < y)"

text \<open>
  The second loop, again from the last element to the first. The state is
  \<^verbatim>\<open>resolutionPlusOne\<close>, \<^verbatim>\<open>resolutionPlusOneAttribute\<close> and \<^verbatim>\<open>resolutionBestVariant\<close>; the two
  \<^verbatim>\<open>break\<close>s return the state.
\<close>

fun resolutionLoop ::
  "('a \<Rightarrow> playlist) \<Rightarrow> real option \<Rightarrow> real option \<Rightarrow> 'a list \<Rightarrow>
   'a option \<times> (real \<times> real) option \<times> 'a option \<Rightarrow> 'a option \<times> (real \<times> real) option \<times> 'a option" where
  "resolutionLoop get width height [] st = st"
| "resolutionLoop get width height (variant # rest)
     (resolutionPlusOne, resolutionPlusOneAttribute, resolutionBestVariant) =
     (case declaredResolution (get variant) of
        None \<Rightarrow>
          resolutionLoop get width height rest
            (resolutionPlusOne, resolutionPlusOneAttribute, resolutionBestVariant)
      | Some (w, h) \<Rightarrow>
          if Some w = width \<and> Some h = height then
            (None, resolutionPlusOneAttribute, Some variant)
          else if ltDim w width \<and> ltDim h height then
            (resolutionPlusOne, resolutionPlusOneAttribute, resolutionBestVariant)
          else if (case resolutionPlusOne of None \<Rightarrow> True | Some _ \<Rightarrow> False) \<or>
                  (case resolutionPlusOneAttribute of
                     None \<Rightarrow> False
                   | Some (pw, ph) \<Rightarrow> w < pw \<and> h < ph) then
            resolutionLoop get width height rest (Some variant, Some (w, h), resolutionBestVariant)
          else
            resolutionLoop get width height rest
              (resolutionPlusOne, resolutionPlusOneAttribute, resolutionBestVariant))"

text \<open>\<^verbatim>\<open>a || b\<close> on two object references.\<close>

definition orElse :: "'a option \<Rightarrow> 'a option \<Rightarrow> 'a option" where
  "orElse a b = (case a of None \<Rightarrow> b | Some x \<Rightarrow> Some x)"

text \<open>
  \<^verbatim>\<open>selectPlaylist\<close> on the list \<^verbatim>\<open>this.playlists.master.playlists\<close>, the bandwidth estimate
  \<^verbatim>\<open>this.bandwidth\<close>, the clock reading \<^verbatim>\<open>+new Date()\<close> and the player's width and height.
\<close>

definition selectPlaylistOn ::
  "('a \<Rightarrow> playlist) \<Rightarrow> 'a list \<Rightarrow> real \<Rightarrow> real \<Rightarrow> real option \<Rightarrow> real option \<Rightarrow>
   error + 'a option" where
  "selectPlaylistOn get playlists bandwidth now width height =
     (case sortBy (\<lambda>a b. Inr (comparePlaylistBandwidth (get a) (get b))) playlists of
        Inl e \<Rightarrow> Inl e
      | Inr byBandwidth \<Rightarrow>
          (let sortedPlaylists = filter (\<lambda>localVariant. notExcluded now (get localVariant)) byBandwidth;
               (pushed, bandwidthBestVariant) =
                 bandwidthLoop get bandwidth (rev sortedPlaylists) ([], None)
           in case sortBy (\<lambda>a b. comparePlaylistResolution (get a) (get b)) pushed of
                Inl e \<Rightarrow> Inl e
              | Inr bandwidthPlaylists \<Rightarrow>
                  (let (resolutionPlusOne, resolutionPlusOneAttribute, resolutionBestVariant) =
                         resolutionLoop get width height (rev bandwidthPlaylists) (None, None, None)
                   in Inr (orElse resolutionPlusOne
                            (orElse resolutionBestVariant
                              (orElse bandwidthBestVariant
                                (case sortedPlaylists of [] \<Rightarrow> None | v # _ \<Rightarrow> Some v)))))))"

text \<open>
  The words of the specification: a playlist whose \<^verbatim>\<open>excludeUntil\<close> is strictly in the future,
  and the playlists the bandwidth loop is run on and what it leaves.
\<close>

definition excludedInFuture :: "real \<Rightarrow> playlist \<Rightarrow> bool" where
  "excludedInFuture now p =
     (case excludeUntil p of
        None \<Rightarrow> False
      | Some (Num t) \<Rightarrow> now < t
      | Some Infinity \<Rightarrow> True)"

definition bandwidthEligible :: "('a \<Rightarrow> playlist) \<Rightarrow> real \<Rightarrow> 'a list \<Rightarrow> 'a list" where
  "bandwidthEligible get bandwidth sortedPlaylists =
     fst (bandwidthLoop get bandwidth (rev sortedPlaylists) ([], None))"

definition bandwidthCandidate :: "('a \<Rightarrow> playlist) \<Rightarrow> real \<Rightarrow> 'a list \<Rightarrow> 'a option" where
  "bandwidthCandidate get bandwidth sortedPlaylists =
     snd (bandwidthLoop get bandwidth (rev sortedPlaylists) ([], None))"

text \<open>
  The test of the first loop on one playlist, and the order \<^verbatim>\<open>sort\<close> leaves: ascending in the
  key the bandwidth comparator compares.
\<close>

definition passesVariance :: "('a \<Rightarrow> playlist) \<Rightarrow> real \<Rightarrow> 'a \<Rightarrow> bool" where
  "passesVariance get bandwidth v =
     (case declaredBandwidth (get v) of
        None \<Rightarrow> False
      | Some b \<Rightarrow> lessDouble (timesDouble b bandwidthVariance) bandwidth)"

definition ascendingBandwidth :: "('a \<Rightarrow> playlist) \<Rightarrow> 'a list \<Rightarrow> bool" where
  "ascendingBandwidth get xs =
     sorted (map (\<lambda>v. orMaxValue (declaredBandwidth (get v))) xs)"

text \<open>
  A playlist without a segment list: the one input on which the function throws.
\<close>

definition lacksSegments :: "playlist option \<Rightarrow> bool" where
  "lacksSegments playlist = (case playlist of None \<Rightarrow> False | Some pl \<Rightarrow> segments pl = None)"

text \<open>Concrete values for the examples below.\<close>

definition exSegment :: "real option \<Rightarrow> real option \<Rightarrow> segment" where
  "exSegment d e = \<lparr>seg_uri = ''s.ts'', seg_duration = map_option Finite d, seg_end = e,
     seg_byterange = None,
     seg_key = None, seg_discontinuity = False\<rparr>"

definition exPlaylist :: "segment list option \<Rightarrow> playlist" where
  "exPlaylist segs = \<lparr>pl_uri = Some ''media.m3u8'', pl_attributes = None, excludeUntil = None,
     segments = segs, mediaSequence = 0, endList = True, discontinuityStarts = []\<rparr>"

definition exVariant :: "string \<Rightarrow> real option \<Rightarrow> number option \<Rightarrow> playlist" where
  "exVariant u b x = \<lparr>pl_uri = Some u,
     pl_attributes = Some \<lparr>BANDWIDTH = b, RESOLUTION = None, CODECS = None\<rparr>,
     excludeUntil = x, segments = None, mediaSequence = 0, endList = False,
     discontinuityStarts = []\<rparr>"

section \<open>The handler and its collaborators\<close>

text \<open>
  \<^verbatim>\<open>loadingState_\<close> is one of \<^verbatim>\<open>'none'\<close>, \<^verbatim>\<open>'meta'\<close> and \<^verbatim>\<open>'segments'\<close>. Isabelle names cannot end
  in an underscore: the fields and methods \<^verbatim>\<open>x_\<close> of the source are named \<open>x\<close> here.
\<close>

datatype loading = LoadNone | LoadMeta | LoadSegments

text \<open>
  A key object: several segments may hold the same one, so segments hold a reference into
  \<open>keyHeap\<close>. \<^verbatim>\<open>bytes\<close> is the \<^verbatim>\<open>Uint32Array\<close> of four words.
\<close>

record key =
  key_uri :: string
  key_iv :: "32 word list option"
  key_bytes :: "32 word list option"
  retries :: "nat option"

text \<open>
  The request object a callback receives, with the fields the source reads. \<^verbatim>\<open>response\<close> is
  the \<^verbatim>\<open>ArrayBuffer\<close> as its bytes.
\<close>

record request =
  rq_ref :: ref
  rq_response :: "8 word list option"
  rq_aborted :: bool
  rq_timedout :: bool
  rq_status :: nat
  rq_roundTripTime :: "real option"
  rq_bandwidth :: real
  rq_bytesReceived :: "real option"

text \<open>
  The segment-info object. \<^verbatim>\<open>timestampOffset\<close> starts as \<^verbatim>\<open>null\<close> and may be assigned a
  variable that is still \<^verbatim>\<open>undefined\<close>; \<^verbatim>\<open>drainBuffer\<close> tests it against \<^verbatim>\<open>null\<close> only.
\<close>

datatype tsOffset = TsNull | TsUndefined | TsNum real

record segmentInfo =
  si_ref :: ref
  si_uri :: string
  si_mediaIndex :: int
  si_mediaSequence :: int
  si_playlist :: ref
  si_currentBufferedEnd :: real
  si_bytes :: "8 word list option"
  si_encryptedBytes :: "8 word list option"
  si_decrypter :: "ref option"
  si_buffered :: "timeRanges option"
  si_timestampOffset :: tsOffset

text \<open>
  The collaborators, each as the values the handler reads from it: the tech
  (\<^verbatim>\<open>currentTime()\<close>, \<^verbatim>\<open>buffered()\<close>, \<^verbatim>\<open>seeking()\<close>, \<^verbatim>\<open>currentSrc()\<close> and the width and height
  \<^verbatim>\<open>parseInt\<close> reads from the computed style of \<^verbatim>\<open>el()\<close>), the media source
  (\<^verbatim>\<open>ms_sourceBuffers\<close> is \<^verbatim>\<open>mediaSource_.sourceBuffers.length\<close> when \<^verbatim>\<open>mediaSource_\<close> exists), the
  source buffer and the playlist loader.
\<close>

record tech =
  t_currentTime :: real
  t_buffered :: timeRanges
  t_seeking :: bool
  t_currentSrc :: string
  t_width :: "real option"
  t_height :: "real option"

record mediaSource =
  ms_readyState :: string
  ms_duration :: real
  ms_sourceBuffers :: "nat option"

record sourceBuffer =
  sb_updating :: bool

record loader =
  ld_state :: string
  ld_media :: "ref option"
  ld_master :: "ref list option"
  expired :: real

text \<open>
  The error objects \<^verbatim>\<open>blacklistCurrentPlaylist_\<close> receives.
\<close>

record hlsError =
  err_playlist :: "ref option"
  err_status :: "nat option"
  err_message :: string
  err_code :: "nat option"

text \<open>
  What the handler does to the world outside is appended to a log. \<open>Bytes a b\<close> stands for
  the header \<^verbatim>\<open>'bytes=a-b'\<close>.
\<close>

datatype rangeHeader = Bytes int int

datatype effect =
    XhrSegment ref string "double option" "rangeHeader option" "bool option"
  | XhrKey ref ref string "bool option"
  | XhrDetach ref
  | XhrAbort ref
  | XhrMarkAborted ref
  | EndOfStream "string option"
  | MediaCall ref
  | Trigger string
  | Warn string
  | SourceBufferRemove real real
  | SetTimestampOffset "real option"
  | AppendBuffer "8 word list option"
  | NewDecrypter ref ref "8 word list option" "32 word list" "32 word list"
  | ClearTimeout ref
  | SetTimeout ref real
  | TechSetCurrentTime real
  | Log string
  | SetDuration real
  | AddSourceOpenListener real
  | RemoveSourceOpenListener real

text \<open>
  The handler. \<open>plHeap\<close> and \<open>keyHeap\<close> hold the playlist and key objects; a closure passed
  to \<^verbatim>\<open>xhr\<close> is kept with what it captured, under the reference of its request;
  \<open>markedAborted\<close> are the requests on which the handler wrote \<^verbatim>\<open>aborted = true\<close>; \<open>nextRef\<close>
  is the next fresh reference and \<open>clockReads\<close> counts the readings of the clock.
\<close>

record handler =
  tech :: tech
  source_src :: string
  source_withCredentials :: "bool option"
  options_withCredentials :: "bool option"
  pendingSegment :: "segmentInfo option"
  bandwidth :: real
  bytesReceived :: real
  segmentXhrTime :: "real option"
  loadingState :: loading
  mediaSource :: "mediaSource option"
  sourceBuffer :: "sourceBuffer option"
  playlists :: "loader option"
  segmentXhr :: "ref option"
  keyXhr :: "ref option"
  lastSegmentLoaded :: "segment option"
  hls_error :: "hlsError option"
  checkBufferTimeout :: "ref option"
  plHeap :: "ref \<Rightarrow> playlist"
  keyHeap :: "ref \<Rightarrow> key"
  segmentClosures :: "ref \<Rightarrow> (segmentInfo \<times> segment) option"
  keyClosures :: "ref \<Rightarrow> (ref \<times> segment) option"
  markedAborted :: "ref list"
  nextRef :: ref
  clockReads :: nat
  effects :: "effect list"

text \<open>
  The code of the repository that is not in this file, and the clock, are parameters:
  \<^verbatim>\<open>resolveUrl\<close>, the loader's \<^verbatim>\<open>getMediaIndexForTime_\<close> and \<^verbatim>\<open>media(playlist)\<close>,
  \<^verbatim>\<open>Hls.Playlist.duration\<close> and \<^verbatim>\<open>seekable\<close>, the tech's \<^verbatim>\<open>setCurrentTime\<close>, and the successive
  readings of \<^verbatim>\<open>Date\<close>.
\<close>

record env =
  resolveUrl :: "string \<Rightarrow> string \<Rightarrow> string"
  getMediaIndexForTime :: "loader \<Rightarrow> (ref \<Rightarrow> playlist) \<Rightarrow> real \<Rightarrow> int option"
  playlistDuration :: "playlist \<Rightarrow> int option \<Rightarrow> real"
  playlistSeekable :: "playlist \<Rightarrow> timeRanges"
  loaderMedia :: "loader \<Rightarrow> ref \<Rightarrow> loader"
  techSetCurrentTime :: "tech \<Rightarrow> real \<Rightarrow> tech"
  clock :: "nat \<Rightarrow> real"

text \<open>
  The constants of the file.
\<close>

definition GOAL_BUFFER_LENGTH :: real where
  "GOAL_BUFFER_LENGTH = 30"

definition TIME_FUDGE_FACTOR :: real where
  "TIME_FUDGE_FACTOR = 1 / 30"

definition bufferCheckInterval :: real where
  "bufferCheckInterval = 500"

definition keyFailed :: "key \<Rightarrow> bool" where
  "keyFailed k = (case retries k of None \<Rightarrow> False | Some n \<Rightarrow> n \<noteq> 0 \<and> n \<ge> 2)"

text \<open>
  \<^verbatim>\<open>filterBufferedRanges(predicate)\<close> and its two instances.
\<close>

definition filterBufferedRanges ::
  "(real \<Rightarrow> real \<Rightarrow> real \<Rightarrow> bool) \<Rightarrow> handler \<Rightarrow> real option \<Rightarrow> timeRanges" where
  "filterBufferedRanges predicate h time =
     (let buffered = t_buffered (tech h);
          time' = (case time of None \<Rightarrow> t_currentTime (tech h) | Some t \<Rightarrow> t)
      in case mediaSource h of
           None \<Rightarrow> []
         | Some ms \<Rightarrow>
             if ms_sourceBuffers ms = Some 0 then []
             else filter (\<lambda>(start, e). predicate start e time') buffered)"

definition findBufferedRange :: "handler \<Rightarrow> real option \<Rightarrow> timeRanges" where
  "findBufferedRange =
     filterBufferedRanges (\<lambda>start e time.
       start - TIME_FUDGE_FACTOR \<le> time \<and> e + TIME_FUDGE_FACTOR \<ge> time)"

definition findNextBufferedRange :: "handler \<Rightarrow> real option \<Rightarrow> timeRanges" where
  "findNextBufferedRange =
     filterBufferedRanges (\<lambda>start e time. start - TIME_FUDGE_FACTOR \<ge> time)"

definition cancelKeyXhr :: "handler \<Rightarrow> handler" where
  "cancelKeyXhr h =
     (case keyXhr h of
        None \<Rightarrow> h
      | Some r \<Rightarrow> h\<lparr>keyXhr := None, effects := effects h @ [XhrDetach r, XhrAbort r]\<rparr>)"

definition cancelSegmentXhr :: "handler \<Rightarrow> handler" where
  "cancelSegmentXhr h =
     (let h1 = (case segmentXhr h of
                  None \<Rightarrow> h
                | Some r \<Rightarrow>
                    h\<lparr>segmentXhr := None, effects := effects h @ [XhrDetach r, XhrAbort r]\<rparr>)
      in h1\<lparr>pendingSegment := None\<rparr>)"

text \<open>
  \<^verbatim>\<open>playlistUriToUrl\<close> reads \<^verbatim>\<open>this.playlists.media().uri\<close>: it throws without a loader or an
  active playlist.
\<close>

definition playlistUriToUrl :: "env \<Rightarrow> handler \<Rightarrow> string \<Rightarrow> error + string" where
  "playlistUriToUrl env h segmentRelativeUrl =
     (case playlists h of
        None \<Rightarrow> Inl TypeError
      | Some ld \<Rightarrow>
          (case ld_media ld of
             None \<Rightarrow> Inl TypeError
           | Some m \<Rightarrow>
               if pl_uri (plHeap h m) = Some (source_src h) then
                 Inr (resolveUrl env (source_src h) segmentRelativeUrl)
               else
                 Inr (resolveUrl env
                       (resolveUrl env (source_src h)
                          (case pl_uri (plHeap h m) of None \<Rightarrow> '''' | Some u \<Rightarrow> u))
                       segmentRelativeUrl)))"

definition byterangeStr :: "byterange \<Rightarrow> rangeHeader" where
  "byterangeStr br =
     (let byterangeEnd = int (br_offset br) + int (br_length br) - 1;
          byterangeStart = int (br_offset br)
      in Bytes byterangeStart byterangeEnd)"

definition segmentXhrHeaders :: "segment \<Rightarrow> rangeHeader option" where
  "segmentXhrHeaders seg =
     (case seg_byterange seg of None \<Rightarrow> None | Some br \<Rightarrow> Some (byterangeStr br))"

definition setBandwidth :: "handler \<Rightarrow> request \<Rightarrow> handler" where
  "setBandwidth h localXhr =
     h\<lparr>segmentXhrTime := rq_roundTripTime localXhr,
       bandwidth := rq_bandwidth localXhr,
       bytesReceived := bytesReceived h +
         (case rq_bytesReceived localXhr of None \<Rightarrow> 0 | Some n \<Rightarrow> n),
       effects := effects h @ [Trigger ''bandwidthupdate'']\<rparr>"

text \<open>
  \<^verbatim>\<open>selectPlaylist\<close> on the handler: the master list holds references, read through the
  store, and the clock is read once.
\<close>

definition selectPlaylist :: "env \<Rightarrow> handler \<Rightarrow> error + (ref option \<times> handler)" where
  "selectPlaylist env h =
     (case playlists h of
        None \<Rightarrow> Inl TypeError
      | Some ld \<Rightarrow>
          (case ld_master ld of
             None \<Rightarrow> Inl TypeError
           | Some master \<Rightarrow>
               (let now = clock env (clockReads h);
                    h1 = h\<lparr>clockReads := Suc (clockReads h)\<rparr>
                in case selectPlaylistOn (plHeap h) master (bandwidth h) now
                          (t_width (tech h)) (t_height (tech h)) of
                     Inl e \<Rightarrow> Inl e
                   | Inr r \<Rightarrow> Inr (r, h1))))"

text \<open>
  \<^verbatim>\<open>this.playlists.media(x)\<close>: with \<^verbatim>\<open>undefined\<close> it is the getter and changes nothing.
\<close>

definition mediaCall :: "env \<Rightarrow> handler \<Rightarrow> ref option \<Rightarrow> error + handler" where
  "mediaCall env h playlist =
     (case playlists h of
        None \<Rightarrow> Inl TypeError
      | Some ld \<Rightarrow>
          (case playlist of
             None \<Rightarrow> Inr h
           | Some r \<Rightarrow>
               Inr (h\<lparr>playlists := Some (loaderMedia env ld r),
                       effects := effects h @ [MediaCall r]\<rparr>)))"

definition endOfStream :: "handler \<Rightarrow> string option \<Rightarrow> error + handler" where
  "endOfStream h reason =
     (case mediaSource h of
        None \<Rightarrow> Inl TypeError
      | Some ms \<Rightarrow> Inr (h\<lparr>effects := effects h @ [EndOfStream reason]\<rparr>))"

text \<open>
  \<^verbatim>\<open>blacklistCurrentPlaylist_\<close>.
\<close>

definition blacklistCurrentPlaylist :: "env \<Rightarrow> handler \<Rightarrow> hlsError \<Rightarrow> error + handler" where
  "blacklistCurrentPlaylist env h err =
     (case (case err_playlist err of
              Some r \<Rightarrow> Inr (Some r)
            | None \<Rightarrow> (case playlists h of
                         None \<Rightarrow> Inl TypeError
                       | Some ld \<Rightarrow> Inr (ld_media ld))) of
        Inl e \<Rightarrow> Inl e
      | Inr None \<Rightarrow> endOfStream (h\<lparr>hls_error := Some err\<rparr>) (Some ''network'')
      | Inr (Some currentPlaylist) \<Rightarrow>
          (let now = clock env (clockReads h);
               h1 = h\<lparr>clockReads := Suc (clockReads h),
                      plHeap := (plHeap h)(currentPlaylist :=
                        (plHeap h currentPlaylist)
                          \<lparr>excludeUntil := Some (Num (now + blacklistDuration))\<rparr>)\<rparr>
           in case selectPlaylist env h1 of
                Inl e \<Rightarrow> Inl e
              | Inr (Some nextPlaylist, h2) \<Rightarrow>
                  mediaCall env
                    (h2\<lparr>effects := effects h2 @
                        [Warn ''Problem encountered with the current HLS playlist. Switching to another playlist.'']\<rparr>)
                    (Some nextPlaylist)
              | Inr (None, h2) \<Rightarrow>
                  endOfStream
                    (h2\<lparr>effects := effects h2 @
                        [Warn ''Problem encountered with the current HLS playlist. No suitable alternatives found.''],
                        hls_error := Some err\<rparr>)
                    (Some ''network'')))"

text \<open>
  \<^verbatim>\<open>fetchKey_\<close>: the request gets a fresh reference and its callback \<^verbatim>\<open>receiveKey(key)\<close> is
  kept with the key and the segment it captured.
\<close>

definition fetchKey :: "env \<Rightarrow> handler \<Rightarrow> segment \<Rightarrow> error + handler" where
  "fetchKey env h seg =
     (case keyXhr h of
        Some _ \<Rightarrow> Inr h
      | None \<Rightarrow>
          (case seg_key seg of
             None \<Rightarrow> Inr h
           | Some k \<Rightarrow>
               if key_bytes (keyHeap h k) = None \<and> \<not> keyFailed (keyHeap h k) then
                 (case playlistUriToUrl env h (key_uri (keyHeap h k)) of
                    Inl e \<Rightarrow> Inl e
                  | Inr url \<Rightarrow>
                      Inr (h\<lparr>keyXhr := Some (nextRef h),
                              nextRef := Suc (nextRef h),
                              keyClosures := (keyClosures h)(nextRef h \<mapsto> (k, seg)),
                              effects := effects h @
                                [XhrKey (nextRef h) k url (options_withCredentials h)]\<rparr>))
               else Inr h))"

definition seekable :: "env \<Rightarrow> handler \<Rightarrow> timeRanges" where
  "seekable env h =
     (case playlists h of
        None \<Rightarrow> []
      | Some ld \<Rightarrow>
          (case ld_media ld of
             None \<Rightarrow> []
           | Some m \<Rightarrow>
               (case playlistSeekable env (plHeap h m) of
                  [] \<Rightarrow> []
                | (start, e) # rest \<Rightarrow>
                    if start = 0 then [(expired ld, expired ld + e)]
                    else (start, e) # rest)))"

text \<open>
  \<^verbatim>\<open>request.aborted\<close> as a callback reads it: set by the transport, or by the handler before.
\<close>

definition requestAborted :: "handler \<Rightarrow> request \<Rightarrow> bool" where
  "requestAborted h rq = (rq_aborted rq \<or> rq_ref rq \<in> set (markedAborted h))"

text \<open>
  \<^verbatim>\<open>loadSegment\<close>, up to the call of \<^verbatim>\<open>xhr\<close>; the callback is \<open>loadSegmentCallback\<close> below.
\<close>

definition loadSegment :: "env \<Rightarrow> handler \<Rightarrow> segmentInfo \<Rightarrow> error + handler" where
  "loadSegment env h segmentInfo =
     (case segments (plHeap h (si_playlist segmentInfo)) of
        None \<Rightarrow> Inl TypeError
      | Some segs \<Rightarrow>
          (case segmentAt segs (si_mediaIndex segmentInfo) of
             None \<Rightarrow> Inl TypeError
           | Some seg \<Rightarrow>
               (let currentTime = t_currentTime (tech h);
                    removeToTime =
                      (case seekable env h of
                         [] \<Rightarrow> currentTime - 60
                       | (start, e) # rest \<Rightarrow>
                           if start > 0 \<and> start < currentTime then start
                           else currentTime - 60);
                    h1 = (case sourceBuffer h of
                            None \<Rightarrow> h
                          | Some sb \<Rightarrow>
                              if \<not> sb_updating sb \<and> removeToTime > 0 then
                                h\<lparr>effects := effects h @ [SourceBufferRemove 0 removeToTime]\<rparr>
                              else h)
                in case (if seg_key seg \<noteq> None then fetchKey env h1 seg else Inr h1) of
                     Inl e \<Rightarrow> Inl e
                   | Inr h2 \<Rightarrow>
                       Inr (h2\<lparr>segmentXhr := Some (nextRef h2),
                               nextRef := Suc (nextRef h2),
                               segmentClosures :=
                                 (segmentClosures h2)(nextRef h2 \<mapsto> (segmentInfo, seg)),
                               effects := effects h2 @
                                 [XhrSegment (nextRef h2) (si_uri segmentInfo)
                                    (map_option (\<lambda>d. scaleDouble (scaleDouble d 1.5) 1000) (seg_duration seg))
                                    (segmentXhrHeaders seg)
                                    (source_withCredentials h2)]\<rparr>))))"

text \<open>
  \<^verbatim>\<open>a.byterange === b.byterange\<close> compares two object references, or \<^verbatim>\<open>undefined\<close>.
\<close>

definition sameByterange :: "byterange option \<Rightarrow> byterange option \<Rightarrow> bool" where
  "sameByterange a b =
     (case (a, b) of
        (None, None) \<Rightarrow> True
      | (Some x, Some y) \<Rightarrow> br_ref x = br_ref y
      | _ \<Rightarrow> False)"

definition toTsOffset :: "real option \<Rightarrow> tsOffset" where
  "toTsOffset v = (case v of None \<Rightarrow> TsUndefined | Some x \<Rightarrow> TsNum x)"

text \<open>
  Three parts of the body of \<^verbatim>\<open>fillBuffer\<close> are named, in the order the source has them. The
  first is the block under \<^verbatim>\<open>typeof mediaIndex === 'undefined'\<close>: it gives the index and
  \<^verbatim>\<open>currentBufferedEnd\<close>, or nothing where the source returns because enough is buffered.
\<close>

definition resolveMediaIndex ::
  "env \<Rightarrow> handler \<Rightarrow> loader \<Rightarrow> int option \<Rightarrow> (int option \<times> real) option" where
  "resolveMediaIndex env h ld mediaIndex =
     (let currentTime = t_currentTime (tech h);
          currentBuffered = findBufferedRange h None
      in case mediaIndex of
           Some i \<Rightarrow> Some (Some i, 0)
         | None \<Rightarrow>
             (case currentBuffered of
                (start, e) # rest \<Rightarrow>
                  if max 0 (e - currentTime) \<ge> GOAL_BUFFER_LENGTH then None
                  else Some (getMediaIndexForTime env ld (plHeap h) e, e)
              | [] \<Rightarrow> Some (getMediaIndexForTime env ld (plHeap h) currentTime, 0)))"

text \<open>
  The second is the test that the segment found is the one loaded last; \<open>uri\<close> is
  \<^verbatim>\<open>this.playlistUriToUrl(segment.uri)\<close>.
\<close>

definition sameAsLastSegmentLoaded :: "env \<Rightarrow> handler \<Rightarrow> segment \<Rightarrow> string \<Rightarrow> bool" where
  "sameAsLastSegmentLoaded env h seg uri =
     (case lastSegmentLoaded h of
        None \<Rightarrow> False
      | Some lastSeg \<Rightarrow>
          playlistUriToUrl env h (seg_uri lastSeg) = Inr uri \<and>
          sameByterange (seg_byterange lastSeg) (seg_byterange seg))"

text \<open>
  The third is the object literal \<^verbatim>\<open>segmentInfo\<close> with the assignments to its
  \<^verbatim>\<open>timestampOffset\<close> that follow it; \<open>m\<close> is the active playlist \<^verbatim>\<open>this.playlists.media()\<close>.
\<close>

definition newSegmentInfo ::
  "env \<Rightarrow> handler \<Rightarrow> loader \<Rightarrow> ref \<Rightarrow> int \<Rightarrow> segment \<Rightarrow> string \<Rightarrow> real \<Rightarrow> segmentInfo" where
  "newSegmentInfo env h ld m mediaIndex seg uri currentBufferedEnd =
     (let currentTime = t_currentTime (tech h);
          hasBufferedContent = (length (t_buffered (tech h)) \<noteq> 0);
          currentBuffered = findBufferedRange h None;
          outsideBufferedRanges = \<not> (length currentBuffered \<noteq> 0);
          segmentTimestampOffset =
            (if mediaIndex > 0 then
               Some (playlistDuration env (plHeap h m)
                       (Some (mediaSequence (plHeap h m) + mediaIndex))
                     + expired ld)
             else None)
      in \<lparr>si_ref = nextRef h,
          si_uri = uri,
          si_mediaIndex = mediaIndex,
          si_mediaSequence = mediaSequence (plHeap h m),
          si_playlist = m,
          si_currentBufferedEnd = currentBufferedEnd,
          si_bytes = None,
          si_encryptedBytes = None,
          si_decrypter = None,
          si_buffered = None,
          si_timestampOffset =
            (if t_seeking (tech h) \<and> outsideBufferedRanges then
               (if discontinuityStarts (plHeap h m) \<noteq> []
                then toTsOffset segmentTimestampOffset
                else TsNull)
             else if seg_discontinuity seg \<and> length currentBuffered \<noteq> 0 then
               (case currentBuffered of
                  (start, e) # rest \<Rightarrow> TsNum e
                | [] \<Rightarrow> TsNull)
             else if \<not> hasBufferedContent \<and> currentTime > 0.05 then
               toTsOffset segmentTimestampOffset
             else TsNull)\<rparr>)"

text \<open>
  \<^verbatim>\<open>fillBuffer\<close>. It calls itself with the next index when the segment found is the one
  loaded last; the index then grows towards the end of the segment list.
\<close>

function fillBuffer :: "env \<Rightarrow> handler \<Rightarrow> int option \<Rightarrow> error + handler" where
  "fillBuffer env h mediaIndex =
     (if loadingState h \<noteq> LoadSegments then Inr h
      else if t_currentSrc (tech h) = [] then Inr h
      else
        (case playlists h of
           None \<Rightarrow> Inr h
         | Some ld \<Rightarrow>
             if segmentXhr h \<noteq> None then Inr h
             else if pendingSegment h \<noteq> None then Inr h
             else if ld_state ld = ''HAVE_NOTHING'' then Inr h
             else
               (case ld_media ld of
                  None \<Rightarrow> Inr h
                | Some m \<Rightarrow>
                    (case segments (plHeap h m) of
                       None \<Rightarrow> Inr h
                     | Some segs \<Rightarrow>
                         if ld_state ld = ''SWITCHING_MEDIA'' then Inr h
                         else
                           (case resolveMediaIndex env h ld mediaIndex of
                              None \<Rightarrow> Inr h
                            | Some (None, currentBufferedEnd) \<Rightarrow> Inr h
                            | Some (Some i, currentBufferedEnd) \<Rightarrow>
                                (case segmentAt segs i of
                                   None \<Rightarrow> Inr h
                                 | Some seg \<Rightarrow>
                                     (case playlistUriToUrl env h (seg_uri seg) of
                                        Inl err \<Rightarrow> Inl err
                                      | Inr uri \<Rightarrow>
                                          if sameAsLastSegmentLoaded env h seg uri
                                          then fillBuffer env h (Some (i + 1))
                                          else
                                            loadSegment env (h\<lparr>nextRef := Suc (nextRef h)\<rparr>)
                                              (newSegmentInfo env h ld m i seg uri
                                                 currentBufferedEnd))))))))"
  by pat_completeness auto

text \<open>
  The measure of the recursion: the segments of the active playlist from the index on, and
  one more for the call that has no index yet.
\<close>

definition mediaSegmentCount :: "handler \<Rightarrow> nat" where
  "mediaSegmentCount h =
     (case playlists h of
        None \<Rightarrow> 0
      | Some ld \<Rightarrow>
          (case ld_media ld of
             None \<Rightarrow> 0
           | Some m \<Rightarrow>
               (case segments (plHeap h m) of None \<Rightarrow> 0 | Some segs \<Rightarrow> length segs)))"

termination fillBuffer
proof (relation "measure (\<lambda>(env, h, mediaIndex).
          case mediaIndex of
            None \<Rightarrow> Suc (mediaSegmentCount h)
          | Some i \<Rightarrow> nat (int (mediaSegmentCount h) - i))", goal_cases)
  case 1
  show ?case by simp
next
  case (2 env h mediaIndex ld m segs resolved index currentBufferedEnd i seg uri)
  from 2(3,7,8,13) have len: "mediaSegmentCount h = length segs" "0 \<le> i" "i < int (length segs)"
    by (auto simp: mediaSegmentCount_def segmentAt_def split: if_splits)
  from 2(11,12) have resolved: "resolved = (Some i, currentBufferedEnd)" by simp
  show ?case
  proof (cases mediaIndex)
    case None
    with len show ?thesis by simp
  next
    case (Some a)
    with 2(10) resolved have "a = i" by (simp add: resolveMediaIndex_def)
    with Some len show ?thesis by simp
  qed
qed

declare fillBuffer.simps [simp del]

text \<open>
  \<^verbatim>\<open>drainBuffer\<close>, the callback given to the decrypter, the callback of the segment request,
  \<^verbatim>\<open>checkBuffer_\<close>, the callback \<^verbatim>\<open>receiveKey(key)\<close> of the key request and \<^verbatim>\<open>setCurrentTime\<close>.
\<close>

definition drainBuffer :: "env \<Rightarrow> handler \<Rightarrow> error + handler" where
  "drainBuffer env h =
     (case pendingSegment h of
        None \<Rightarrow> Inr h
      | Some segmentInfo \<Rightarrow>
          (case sourceBuffer h of
             None \<Rightarrow> Inr h
           | Some sb \<Rightarrow>
               if si_buffered segmentInfo \<noteq> None then Inr h
               else if sb_updating sb then Inr h
               else
                 (case segments (plHeap h (si_playlist segmentInfo)) of
                    None \<Rightarrow> Inl TypeError
                  | Some segs \<Rightarrow>
                      (case segmentAt segs (si_mediaIndex segmentInfo) of
                         None \<Rightarrow> Inl TypeError
                       | Some seg \<Rightarrow>
                           (case (seg_key seg, si_bytes segmentInfo) of
                              (Some k, None) \<Rightarrow>
                                if keyFailed (keyHeap h k) then
                                  blacklistCurrentPlaylist env h
                                    \<lparr>err_playlist = None, err_status = None,
                                     err_message = ''HLS segment key request error.'',
                                     err_code = Some 4\<rparr>
                                else
                                  (case key_bytes (keyHeap h k) of
                                     None \<Rightarrow> Inr h
                                   | Some keyBytes \<Rightarrow>
                                       if si_decrypter segmentInfo \<noteq> None then Inr h
                                       else
                                         (let segIv =
                                                (case key_iv (keyHeap h k) of
                                                   Some iv \<Rightarrow> iv
                                                 | None \<Rightarrow>
                                                     [0, 0, 0,
                                                      word_of_int
                                                        (si_mediaIndex segmentInfo
                                                         + mediaSequence
                                                             (plHeap h (si_playlist segmentInfo)))])
                                          in Inr (h\<lparr>pendingSegment :=
                                                      Some (segmentInfo
                                                        \<lparr>si_decrypter := Some (nextRef h)\<rparr>),
                                                    nextRef := Suc (nextRef h),
                                                    effects := effects h @
                                                      [NewDecrypter (nextRef h) (si_ref segmentInfo)
                                                         (si_encryptedBytes segmentInfo)
                                                         keyBytes segIv]\<rparr>)))
                            | _ \<Rightarrow>
                                Inr (h\<lparr>pendingSegment :=
                                          Some (segmentInfo
                                            \<lparr>si_buffered := Some (t_buffered (tech h))\<rparr>),
                                        effects := effects h @
                                          (case si_timestampOffset segmentInfo of
                                             TsNull \<Rightarrow> []
                                           | TsUndefined \<Rightarrow> [SetTimestampOffset None]
                                           | TsNum t \<Rightarrow> [SetTimestampOffset (Some t)]) @
                                          [AppendBuffer (si_bytes segmentInfo)]\<rparr>))))))"

definition decrypterCallback ::
  "handler \<Rightarrow> ref \<Rightarrow> string option \<Rightarrow> 8 word list option \<Rightarrow> handler" where
  "decrypterCallback h segmentInfoRef err localBytes =
     (let h1 = (case err of
                  None \<Rightarrow> h
                | Some msg \<Rightarrow> h\<lparr>effects := effects h @ [Warn msg]\<rparr>)
      in case pendingSegment h1 of
           None \<Rightarrow> h1
         | Some segmentInfo \<Rightarrow>
             if si_ref segmentInfo = segmentInfoRef then
               h1\<lparr>pendingSegment := Some (segmentInfo\<lparr>si_bytes := localBytes\<rparr>)\<rparr>
             else h1)"

definition loadSegmentCallback ::
  "env \<Rightarrow> handler \<Rightarrow> segmentInfo \<Rightarrow> segment \<Rightarrow> bool \<Rightarrow> request \<Rightarrow> error + handler" where
  "loadSegmentCallback env h segmentInfo seg err rq =
     (if segmentXhr h = None \<or> Some (rq_ref rq) \<noteq> segmentXhr h then Inr h
      else
        (let h1 = h\<lparr>segmentXhr := None\<rparr>
         in if rq_timedout rq then
              (case selectPlaylist env (h1\<lparr>bandwidth := 1\<rparr>) of
                 Inl e \<Rightarrow> Inl e
               | Inr (p, h2) \<Rightarrow> mediaCall env h2 p)
            else if \<not> requestAborted h1 rq \<and> err then
              blacklistCurrentPlaylist env h1
                \<lparr>err_playlist = None, err_status = Some (rq_status rq),
                 err_message = ''HLS segment request error at URL: '' @ si_uri segmentInfo,
                 err_code = Some (if rq_status rq \<ge> 500 then 4 else 2)\<rparr>
            else if rq_response rq = None then Inr h1
            else
              (let h2 = setBandwidth (h1\<lparr>lastSegmentLoaded := Some seg\<rparr>) rq;
                   segmentInfo' =
                     (if seg_key seg \<noteq> None
                      then segmentInfo\<lparr>si_encryptedBytes := rq_response rq\<rparr>
                      else segmentInfo\<lparr>si_bytes := rq_response rq\<rparr>);
                   h3 = h2\<lparr>pendingSegment := Some segmentInfo',
                          effects := effects h2 @ [Trigger ''progress'']\<rparr>
               in case drainBuffer env h3 of
                    Inl e \<Rightarrow> Inl e
                  | Inr h4 \<Rightarrow>
                      (case selectPlaylist env h4 of
                         Inl e \<Rightarrow> Inl e
                       | Inr (p, h5) \<Rightarrow> mediaCall env h5 p))))"

definition checkBuffer :: "env \<Rightarrow> handler \<Rightarrow> error + handler" where
  "checkBuffer env h =
     (let h1 = (case checkBufferTimeout h of
                  None \<Rightarrow> h
                | Some t \<Rightarrow>
                    h\<lparr>checkBufferTimeout := None, effects := effects h @ [ClearTimeout t]\<rparr>)
      in case fillBuffer env h1 None of
           Inl e \<Rightarrow> Inl e
         | Inr h2 \<Rightarrow>
             (case drainBuffer env h2 of
                Inl e \<Rightarrow> Inl e
              | Inr h3 \<Rightarrow>
                  Inr (h3\<lparr>checkBufferTimeout := Some (nextRef h3),
                          nextRef := Suc (nextRef h3),
                          effects := effects h3 @
                            [SetTimeout (nextRef h3) bufferCheckInterval]\<rparr>)))"

text \<open>
  \<^verbatim>\<open>view.getUint32(byteOffset)\<close> reads four bytes, the most significant first, and throws
  when they are not all there. The key is the four words at offsets 0, 4, 8 and 12.
\<close>

definition getUint32 :: "8 word list \<Rightarrow> nat \<Rightarrow> error + 32 word" where
  "getUint32 view byteOffset =
     (case drop byteOffset view of
        b0 # b1 # b2 # b3 # rest \<Rightarrow>
          Inr (push_bit 24 (ucast b0) OR push_bit 16 (ucast b1) OR push_bit 8 (ucast b2)
               OR ucast b3)
      | _ \<Rightarrow> Inl RangeError)"

definition keyWords :: "8 word list \<Rightarrow> error + 32 word list" where
  "keyWords view =
     (case (getUint32 view 0, getUint32 view 4, getUint32 view 8, getUint32 view 12) of
        (Inr a, Inr b, Inr c, Inr d) \<Rightarrow> Inr [a, b, c, d]
      | _ \<Rightarrow> Inl RangeError)"

definition receiveKey ::
  "env \<Rightarrow> handler \<Rightarrow> ref \<Rightarrow> segment \<Rightarrow> bool \<Rightarrow> request \<Rightarrow> error + handler" where
  "receiveKey env h keyRecieved seg err rq =
     (let h1 = h\<lparr>keyXhr := None\<rparr>
      in case (if err then None
               else (case rq_response rq of
                       None \<Rightarrow> None
                     | Some bs \<Rightarrow> if length bs \<noteq> 16 then None else Some bs)) of
           None \<Rightarrow>
             (let n = (case retries (keyHeap h1 keyRecieved) of None \<Rightarrow> 0 | Some n \<Rightarrow> n);
                  h2 = h1\<lparr>keyHeap := (keyHeap h1)(keyRecieved :=
                             (keyHeap h1 keyRecieved)\<lparr>retries := Some (n + 1)\<rparr>)\<rparr>
              in if \<not> requestAborted h2 rq then fetchKey env h2 seg else Inr h2)
         | Some bs \<Rightarrow>
             (case keyWords bs of
                Inl e \<Rightarrow> Inl e
              | Inr ws \<Rightarrow>
                  checkBuffer env
                    (h1\<lparr>keyHeap := (keyHeap h1)(keyRecieved :=
                        (keyHeap h1 keyRecieved)\<lparr>key_bytes := Some ws\<rparr>)\<rparr>)))"

definition setCurrentTime :: "env \<Rightarrow> handler \<Rightarrow> real \<Rightarrow> error + (real option \<times> handler)" where
  "setCurrentTime env h currentTime =
     (let buffered = findBufferedRange h None
      in case playlists h of
           None \<Rightarrow> Inr (Some 0, h)
         | Some ld \<Rightarrow>
             (case ld_media ld of
                None \<Rightarrow> Inr (Some 0, h)
              | Some m \<Rightarrow>
                  if segments (plHeap h m) = None then Inr (Some 0, h)
                  else if length buffered \<noteq> 0 then Inr (Some currentTime, h)
                  else if (case pendingSegment h of
                             None \<Rightarrow> False
                           | Some segmentInfo \<Rightarrow> si_buffered segmentInfo \<noteq> None)
                  then Inr (Some currentTime, h)
                  else
                    (let h1 = cancelSegmentXhr (h\<lparr>lastSegmentLoaded := None\<rparr>);
                         h2 = (case keyXhr h1 of
                                 None \<Rightarrow> h1
                               | Some r \<Rightarrow>
                                   cancelKeyXhr
                                     (h1\<lparr>markedAborted := r # markedAborted h1,
                                         effects := effects h1 @ [XhrMarkAborted r]\<rparr>))
                     in case fillBuffer env h2
                               (getMediaIndexForTime env ld (plHeap h2) currentTime) of
                          Inl e \<Rightarrow> Inl e
                        | Inr h3 \<Rightarrow> Inr (None, h3))))"

text \<open>
  \<^verbatim>\<open>detectEndOfStream\<close>, \<^verbatim>\<open>updateDuration\<close> with its listener \<^verbatim>\<open>setDuration\<close>, and
  \<^verbatim>\<open>updateEndHandler_\<close>.
\<close>

definition detectEndOfStream ::
  "playlist option \<Rightarrow> mediaSource option \<Rightarrow> int \<Rightarrow> timeRanges \<Rightarrow> error + bool" where
  "detectEndOfStream playlist ms segmentIndex currentBuffered =
     (case playlist of
        None \<Rightarrow> Inr False
      | Some pl \<Rightarrow>
          (case segments pl of
             None \<Rightarrow> Inl TypeError
           | Some segs \<Rightarrow>
               (let appendedLastSegment = (segmentIndex = int (length segs) - 1)
                in case (case currentBuffered of
                           [] \<Rightarrow> Inr False
                         | (start, e) # rest \<Rightarrow>
                             (case segmentAt segs (int (length segs) - 1) of
                                None \<Rightarrow> Inl TypeError
                              | Some lastSeg \<Rightarrow>
                                  (case seg_end lastSeg of
                                     None \<Rightarrow> Inr False
                                   | Some le \<Rightarrow> Inr (le \<le> e)))) of
                     Inl err \<Rightarrow> Inl err
                   | Inr bufferedToEnd \<Rightarrow>
                       if \<not> endList pl then Inr False
                       else (case ms of
                               None \<Rightarrow> Inl TypeError
                             | Some m \<Rightarrow>
                                 Inr (ms_readyState m = ''open'' \<and>
                                      (appendedLastSegment \<or> bufferedToEnd))))))"

definition setDurationCallback :: "handler \<Rightarrow> real \<Rightarrow> error + handler" where
  "setDurationCallback h newDuration =
     (case mediaSource h of
        None \<Rightarrow> Inl TypeError
      | Some ms \<Rightarrow>
          Inr (h\<lparr>mediaSource := Some (ms\<lparr>ms_duration := newDuration\<rparr>),
                  effects := effects h @
                    [SetDuration newDuration, Trigger ''durationchange'',
                     RemoveSourceOpenListener newDuration]\<rparr>))"

definition updateDuration :: "env \<Rightarrow> handler \<Rightarrow> ref \<Rightarrow> error + handler" where
  "updateDuration env h playlist =
     (case mediaSource h of
        None \<Rightarrow> Inl TypeError
      | Some ms \<Rightarrow>
          (let oldDuration = ms_duration ms;
               buffered = t_buffered (tech h);
               newDuration =
                 (if length buffered > 0
                  then max (playlistDuration env (plHeap h playlist) None) (snd (last buffered))
                  else playlistDuration env (plHeap h playlist) None)
           in if oldDuration \<noteq> newDuration then
                (if ms_readyState ms \<noteq> ''open'' then
                   Inr (h\<lparr>effects := effects h @ [AddSourceOpenListener newDuration]\<rparr>)
                 else if (case sourceBuffer h of None \<Rightarrow> True | Some sb \<Rightarrow> \<not> sb_updating sb) then
                   Inr (h\<lparr>mediaSource := Some (ms\<lparr>ms_duration := newDuration\<rparr>),
                           effects := effects h @
                             [SetDuration newDuration, Trigger ''durationchange'']\<rparr>)
                 else Inr h)
              else Inr h))"

definition updateEndHandler :: "env \<Rightarrow> handler \<Rightarrow> error + handler" where
  "updateEndHandler env h =
     (case pendingSegment h of
        None \<Rightarrow> Inr (h\<lparr>pendingSegment := None\<rparr>)
      | Some segmentInfo \<Rightarrow>
          (case si_buffered segmentInfo of
             None \<Rightarrow> Inr h
           | Some before \<Rightarrow>
               (let h1 = h\<lparr>pendingSegment := None\<rparr>;
                    playlist = si_playlist segmentInfo;
                    currentMediaIndex = si_mediaIndex segmentInfo +
                      (si_mediaSequence segmentInfo - mediaSequence (plHeap h1 playlist));
                    currentBuffered = findBufferedRange h1 None
                in case detectEndOfStream (Some (plHeap h1 playlist)) (mediaSource h1)
                          currentMediaIndex currentBuffered of
                     Inl err \<Rightarrow> Inl err
                   | Inr isEndOfStream \<Rightarrow>
                       (case playlists h1 of
                          None \<Rightarrow> Inl TypeError
                        | Some ld \<Rightarrow>
                            (case ld_media ld of
                               None \<Rightarrow> Inl TypeError
                             | Some m \<Rightarrow>
                                 if pl_uri (plHeap h1 playlist) \<noteq> pl_uri (plHeap h1 m) then
                                   (if isEndOfStream then endOfStream h1 None
                                    else fillBuffer env h1 None)
                                 else
                                   (let h2 =
                                          (if t_seeking (tech h1) \<and> length currentBuffered = 0 then
                                             (case seekable env h1 of
                                                [] \<Rightarrow> h1
                                              | (start, e) # rest \<Rightarrow>
                                                  if t_currentTime (tech h1) < start then
                                                    (case findNextBufferedRange h1 None of
                                                       [] \<Rightarrow> h1
                                                     | (nextStart, ne) # nrest \<Rightarrow>
                                                         h1\<lparr>tech := techSetCurrentTime env (tech h1)
                                                                 (nextStart + TIME_FUDGE_FACTOR),
                                                            effects := effects h1 @
                                                              [Log ''tried seeking but that was too early, retrying'',
                                                               TechSetCurrentTime
                                                                 (nextStart + TIME_FUDGE_FACTOR)]\<rparr>)
                                                  else h1)
                                           else h1);
                                        timelineUpdate =
                                          findSoleUncommonTimeRangesEnd (Some before)
                                            (Some (t_buffered (tech h2)))
                                    in case updateSegmentMetadata (Some (plHeap h2 playlist))
                                              currentMediaIndex timelineUpdate of
                                         Inl err \<Rightarrow> Inl err
                                       | Inr None \<Rightarrow> Inl TypeError
                                       | Inr (Some updated) \<Rightarrow>
                                           (let h3 = h2\<lparr>plHeap := (plHeap h2)(playlist := updated)\<rparr>
                                            in if isEndOfStream then endOfStream h3 None
                                               else if timelineUpdate \<noteq> None \<or>
                                                       length before \<noteq>
                                                         length (t_buffered (tech h3)) then
                                                 (case updateDuration env h3 playlist of
                                                    Inl err \<Rightarrow> Inl err
                                                  | Inr h4 \<Rightarrow> fillBuffer env h4 None)
                                               else
                                                 fillBuffer env h3
                                                   (Some (currentMediaIndex + 1)))))))))"

section \<open>Sessions\<close>

text \<open>
  What can happen to a handler: a call of one of its entry points, the completion of a
  request or of a decryption it started (the callback runs with what it captured), an event
  of the source buffer or of the media source, and a change of the world outside (the tech,
  the media source, the source buffer, the loader and the playlists it parsed, and the
  permission to load, which \<^verbatim>\<open>play\<close> and the metadata listener raise).
\<close>

datatype event =
    EvFillBuffer "int option"
  | EvDrainBuffer
  | EvCheckBuffer
  | EvSetCurrentTime real
  | EvBlacklist hlsError
  | EvUpdateEnd
  | EvSegmentResponse ref bool request
  | EvKeyResponse ref bool request
  | EvDecrypted ref "string option" "8 word list option"
  | EvSourceOpen real
  | EvWorld tech "mediaSource option" "sourceBuffer option" "loader option"
      "ref \<Rightarrow> playlist" loading

fun step :: "env \<Rightarrow> handler \<Rightarrow> event \<Rightarrow> error + handler" where
  "step env h (EvFillBuffer mediaIndex) = fillBuffer env h mediaIndex"
| "step env h EvDrainBuffer = drainBuffer env h"
| "step env h EvCheckBuffer = checkBuffer env h"
| "step env h (EvSetCurrentTime t) =
     (case setCurrentTime env h t of Inl e \<Rightarrow> Inl e | Inr (r, h') \<Rightarrow> Inr h')"
| "step env h (EvBlacklist err) = blacklistCurrentPlaylist env h err"
| "step env h EvUpdateEnd = updateEndHandler env h"
| "step env h (EvSegmentResponse r err rq) =
     (case segmentClosures h r of
        None \<Rightarrow> Inr h
      | Some (segmentInfo, seg) \<Rightarrow>
          loadSegmentCallback env h segmentInfo seg err (rq\<lparr>rq_ref := r\<rparr>))"
| "step env h (EvKeyResponse r err rq) =
     (case keyClosures h r of
        None \<Rightarrow> Inr h
      | Some (k, seg) \<Rightarrow> receiveKey env h k seg err (rq\<lparr>rq_ref := r\<rparr>))"
| "step env h (EvDecrypted segmentInfoRef err localBytes) =
     Inr (decrypterCallback h segmentInfoRef err localBytes)"
| "step env h (EvSourceOpen newDuration) = setDurationCallback h newDuration"
| "step env h (EvWorld t ms sb ld heap perm) =
     Inr (h\<lparr>tech := t, mediaSource := ms, sourceBuffer := sb, playlists := ld,
             plHeap := heap, loadingState := perm\<rparr>)"

text \<open>A session runs its events in order and stops at the first exception.\<close>

fun run :: "env \<Rightarrow> handler \<Rightarrow> event list \<Rightarrow> error + handler" where
  "run env h [] = Inr h"
| "run env h (ev # evs) =
     (case step env h ev of Inl e \<Rightarrow> Inl e | Inr h' \<Rightarrow> run env h' evs)"

text \<open>The key requests and the segment requests in a log.\<close>

fun isKeyRequestFor :: "ref \<Rightarrow> effect \<Rightarrow> bool" where
  "isKeyRequestFor k (XhrKey r k' url c) = (k' = k)"
| "isKeyRequestFor k _ = False"


definition keyRequestsFor :: "ref \<Rightarrow> handler \<Rightarrow> effect list" where
  "keyRequestsFor k h = filter (isKeyRequestFor k) (effects h)"


definition fillShape :: "env \<Rightarrow> handler \<Rightarrow> error + handler \<Rightarrow> bool" where
  "fillShape env h res =
     (res = Inr h \<or>
      (\<exists>ld m segs i seg uri e.
         loadingState h = LoadSegments \<and> segmentXhr h = None \<and> pendingSegment h = None \<and>
         playlists h = Some ld \<and> ld_media ld = Some m \<and> segments (plHeap h m) = Some segs \<and>
         segmentAt segs i = Some seg \<and> playlistUriToUrl env h (seg_uri seg) = Inr uri \<and>
         res = loadSegment env (h\<lparr>nextRef := Suc (nextRef h)\<rparr>)
                 (newSegmentInfo env h ld m i seg uri e)))"




text \<open>
  An environment and a handler for the examples: two playlists in the master list, of
  bandwidth 500000 (the active one) and 2000000, the tech at second 5 and seeking.
\<close>

definition exEnv :: env where
  "exEnv = \<lparr>resolveUrl = (\<lambda>base rel. rel),
     getMediaIndexForTime = (\<lambda>ld heap t. Some 0),
     playlistDuration = (\<lambda>p e. 0),
     playlistSeekable = (\<lambda>p. []),
     loaderMedia = (\<lambda>ld r. ld\<lparr>ld_media := Some r\<rparr>),
     techSetCurrentTime = (\<lambda>t x. t\<lparr>t_currentTime := x\<rparr>),
     clock = (\<lambda>n. 1000 + real n)\<rparr>"

definition exKeySegment :: segment where
  "exKeySegment = \<lparr>seg_uri = ''s.ts'', seg_duration = Some (Finite 10), seg_end = None,
     seg_byterange = None, seg_key = Some 7, seg_discontinuity = False\<rparr>"

definition exMedia :: "real \<Rightarrow> segment list \<Rightarrow> playlist" where
  "exMedia b segs = \<lparr>pl_uri = Some ''media.m3u8'',
     pl_attributes = Some \<lparr>BANDWIDTH = Some b, RESOLUTION = None, CODECS = None\<rparr>,
     excludeUntil = None, segments = Some segs, mediaSequence = 0, endList = True,
     discontinuityStarts = []\<rparr>"

definition exHandler :: "segment list \<Rightarrow> timeRanges \<Rightarrow> handler" where
  "exHandler segs buffered =
     \<lparr>tech = \<lparr>t_currentTime = 5, t_buffered = buffered, t_seeking = True,
               t_currentSrc = ''blob:hls'', t_width = None, t_height = None\<rparr>,
      source_src = ''master.m3u8'', source_withCredentials = None,
      options_withCredentials = None, pendingSegment = None, bandwidth = 4194304,
      bytesReceived = 0, segmentXhrTime = None, loadingState = LoadSegments,
      mediaSource = Some \<lparr>ms_readyState = ''open'', ms_duration = 20, ms_sourceBuffers = Some 1\<rparr>,
      sourceBuffer = Some \<lparr>sb_updating = False\<rparr>,
      playlists = Some \<lparr>ld_state = ''HAVE_METADATA'', ld_media = Some 0,
                          ld_master = Some [0, 1], expired = 0\<rparr>,
      segmentXhr = None, keyXhr = None, lastSegmentLoaded = None, hls_error = None,
      checkBufferTimeout = None,
      plHeap = (\<lambda>r. if r = 0 then exMedia 500000 segs else exMedia 2000000 segs),
      keyHeap = (\<lambda>k. \<lparr>key_uri = ''key.bin'', key_iv = None, key_bytes = None, retries = None\<rparr>),
      segmentClosures = (\<lambda>r. None), keyClosures = (\<lambda>r. None), markedAborted = [],
      nextRef = 0, clockReads = 0, effects = []\<rparr>"




definition cancelled :: "handler \<Rightarrow> handler" where
  "cancelled h =
     h\<lparr>lastSegmentLoaded := None, segmentXhr := None, pendingSegment := None, keyXhr := None,
       markedAborted := (case keyXhr h of None \<Rightarrow> markedAborted h | Some k \<Rightarrow> k # markedAborted h),
       effects := effects h @
         (case segmentXhr h of None \<Rightarrow> [] | Some r \<Rightarrow> [XhrDetach r, XhrAbort r]) @
         (case keyXhr h of None \<Rightarrow> [] | Some k \<Rightarrow> [XhrMarkAborted k, XhrDetach k, XhrAbort k])\<rparr>"


text \<open>
  The steps of \<^verbatim>\<open>blacklistCurrentPlaylist_\<close>, named: the store once the playlist is excluded,
  the selection made on it at the next reading of the clock, and the handler after the
  switch or after the failure.
\<close>

definition excludedHeap :: "env \<Rightarrow> handler \<Rightarrow> ref \<Rightarrow> ref \<Rightarrow> playlist" where
  "excludedHeap env h p =
     (plHeap h)(p := (plHeap h p)
        \<lparr>excludeUntil := Some (Num (clock env (clockReads h) + blacklistDuration))\<rparr>)"

definition selectionAfterExcluding :: "env \<Rightarrow> handler \<Rightarrow> ref \<Rightarrow> ref list \<Rightarrow> error + ref option" where
  "selectionAfterExcluding env h p master =
     selectPlaylistOn (excludedHeap env h p) master (bandwidth h)
       (clock env (Suc (clockReads h))) (t_width (tech h)) (t_height (tech h))"

definition afterSwitch :: "env \<Rightarrow> handler \<Rightarrow> loader \<Rightarrow> ref \<Rightarrow> ref \<Rightarrow> handler" where
  "afterSwitch env h ld p nextPlaylist =
     h\<lparr>clockReads := Suc (Suc (clockReads h)),
       plHeap := excludedHeap env h p,
       playlists := Some (loaderMedia env ld nextPlaylist),
       effects := effects h @
         [Warn ''Problem encountered with the current HLS playlist. Switching to another playlist.'',
          MediaCall nextPlaylist]\<rparr>"

definition afterFailure :: "env \<Rightarrow> handler \<Rightarrow> ref \<Rightarrow> hlsError \<Rightarrow> handler" where
  "afterFailure env h p err =
     h\<lparr>clockReads := Suc (Suc (clockReads h)),
       plHeap := excludedHeap env h p,
       hls_error := Some err,
       effects := effects h @
         [Warn ''Problem encountered with the current HLS playlist. No suitable alternatives found.'',
          EndOfStream (Some ''network'')]\<rparr>"

definition exError :: hlsError where
  "exError = \<lparr>err_playlist = None, err_status = Some 503,
     err_message = ''HLS segment request error at URL: s.ts'', err_code = Some 4\<rparr>"

text \<open>
  Two relations between a handler and a later one. \<open>keyQuiet\<close>: the key store is the same
  and no request was made for a key that had failed. \<open>keyStable k\<close>: if the key \<open>k\<close> had
  failed, it still has, and no request was made for it.
\<close>

definition keyQuiet :: "handler \<Rightarrow> handler \<Rightarrow> bool" where
  "keyQuiet h h' =
     (keyHeap h' = keyHeap h \<and>
      (\<forall>k. keyFailed (keyHeap h k) \<longrightarrow> keyRequestsFor k h' = keyRequestsFor k h))"

definition keyStable :: "ref \<Rightarrow> handler \<Rightarrow> handler \<Rightarrow> bool" where
  "keyStable k h h' =
     (keyFailed (keyHeap h k) \<longrightarrow>
        keyFailed (keyHeap h' k) \<and> keyRequestsFor k h' = keyRequestsFor k h)"

text \<open>
  The test of \<^verbatim>\<open>receiveKey\<close> on a response, the counter read as \<^verbatim>\<open>retries || 0\<close>, the handler
  after a failed and after a good response, and the four bytes of a word, the most
  significant first.
\<close>

definition keyResponseBad :: "bool \<Rightarrow> request \<Rightarrow> bool" where
  "keyResponseBad err rq =
     (err \<or> (case rq_response rq of None \<Rightarrow> True | Some bs \<Rightarrow> length bs \<noteq> 16))"

definition retriesOrZero :: "key \<Rightarrow> nat" where
  "retriesOrZero k = (case retries k of None \<Rightarrow> 0 | Some n \<Rightarrow> n)"

definition afterKeyFailure :: "handler \<Rightarrow> ref \<Rightarrow> handler" where
  "afterKeyFailure h k =
     h\<lparr>keyXhr := None,
       keyHeap := (keyHeap h)(k :=
         (keyHeap h k)\<lparr>retries := Some (retriesOrZero (keyHeap h k) + 1)\<rparr>)\<rparr>"

definition afterKeySuccess :: "handler \<Rightarrow> ref \<Rightarrow> 32 word list \<Rightarrow> handler" where
  "afterKeySuccess h k ws =
     h\<lparr>keyXhr := None,
       keyHeap := (keyHeap h)(k := (keyHeap h k)\<lparr>key_bytes := Some ws\<rparr>)\<rparr>"

definition uint32Bytes :: "32 word \<Rightarrow> 8 word list" where
  "uint32Bytes w = [ucast (drop_bit 24 w), ucast (drop_bit 16 w), ucast (drop_bit 8 w), ucast w]"

text \<open>
  A key response with no body, for the examples.
\<close>

definition exFailedRequest :: request where
  "exFailedRequest = \<lparr>rq_ref = 0, rq_response = None, rq_aborted = False, rq_timedout = False,
     rq_status = 404, rq_roundTripTime = None, rq_bandwidth = 0, rq_bytesReceived = None\<rparr>"

section \<open>Properties of the double precision arithmetic\<close>

lemma bitLength_0: "bitLength 0 = 0"
  by (simp add: bitLength.simps)

lemma bitLength_pos: "0 < n \<Longrightarrow> bitLength n = Suc (bitLength (n div 2))"
  by (subst bitLength.simps) simp

lemma bitLength_bounds: "0 < n \<Longrightarrow> 2 ^ (bitLength n - 1) \<le> n \<and> n < 2 ^ bitLength n"
proof (induction n rule: bitLength.induct)
  case (1 n)
  show ?case
  proof (cases "n div 2 = 0")
    case True
    with 1(2) have "n = 1" by auto
    then show ?thesis by (simp add: bitLength_pos bitLength_0)
  next
    case False
    then have pos: "0 < n div 2" by simp
    from 1(1)[OF _ pos] 1(2)
    have ih: "2 ^ (bitLength (n div 2) - 1) \<le> n div 2" "n div 2 < 2 ^ bitLength (n div 2)"
      by auto
    have bl: "bitLength n = Suc (bitLength (n div 2))" using 1(2) by (rule bitLength_pos)
    have b1: "0 < bitLength (n div 2)" using pos by (simp add: bitLength_pos)
    then have "(2::nat) ^ bitLength (n div 2) = 2 * 2 ^ (bitLength (n div 2) - 1)"
      by (cases "bitLength (n div 2)") simp_all
    with ih(1) have lo: "2 ^ bitLength (n div 2) \<le> n" by linarith
    from ih(2) have "n < 2 * 2 ^ bitLength (n div 2)" by linarith
    with lo show ?thesis by (simp add: bl)
  qed
qed

lemma twoTo_pos: "0 < twoTo k"
  by (simp add: twoTo_def)

lemma twoTo_powi: "twoTo k = 2 powi k"
  by (simp add: twoTo_def power_int_def field_simps)

lemma twoTo_add: "twoTo (j + k) = twoTo j * twoTo k"
  by (simp add: twoTo_powi power_int_add)

lemma twoTo_mono: "j \<le> k \<Longrightarrow> twoTo j \<le> twoTo k"
  by (simp add: twoTo_powi power_int_increasing)

text \<open>The exponent is the right one.\<close>

lemma binaryExponent_bounds:
  assumes "x \<noteq> 0"
  shows "twoTo (binaryExponent x) \<le> \<bar>x\<bar> \<and> \<bar>x\<bar> < twoTo (binaryExponent x + 1)"
proof (cases "1 \<le> \<bar>x\<bar>")
  case True
  define n where "n = nat \<lfloor>\<bar>x\<bar>\<rfloor>"
  have rn: "real n = of_int \<lfloor>\<bar>x\<bar>\<rfloor>" by (simp add: n_def)
  have n: "0 < n" "real n \<le> \<bar>x\<bar>" "\<bar>x\<bar> < real n + 1"
    using True floor_correct[of "\<bar>x\<bar>"] by (simp_all add: rn) (simp add: n_def)
  from bitLength_bounds[OF n(1)] have b: "2 ^ (bitLength n - 1) \<le> n" "n < 2 ^ bitLength n" by auto
  have bl: "0 < bitLength n" using n(1) by (simp add: bitLength_pos)
  have e: "binaryExponent x = int (bitLength n) - 1"
    using True by (simp add: binaryExponent_def n_def)
  have "twoTo (binaryExponent x) = 2 ^ (bitLength n - 1)"
    using bl by (simp add: e twoTo_def nat_diff_distrib')
  moreover have "twoTo (binaryExponent x + 1) = 2 ^ bitLength n"
    by (simp add: e twoTo_def)
  moreover have "(2::real) ^ (bitLength n - 1) \<le> real n"
    using of_nat_mono[OF b(1), where 'a = real] by simp
  moreover have "real n + 1 \<le> 2 ^ bitLength n"
    using of_nat_mono[of "Suc n" "2 ^ bitLength n", where 'a = real] b(2) by simp
  ultimately show ?thesis using n(2,3) by linarith
next
  case False
  define y where "y = 1 / \<bar>x\<bar>"
  define n where "n = nat (\<lceil>y\<rceil> - 1)"
  have y: "1 < y" using False assms by (simp add: y_def)
  then have c: "2 \<le> \<lceil>y\<rceil>" by linarith
  then have rn: "real n = of_int \<lceil>y\<rceil> - 1" by (simp add: n_def)
  have n: "0 < n" "real n < y" "y \<le> real n + 1"
    using c ceiling_correct[of y] by (simp_all add: rn) (simp add: n_def)
  from bitLength_bounds[OF n(1)] have b: "2 ^ (bitLength n - 1) \<le> n" "n < 2 ^ bitLength n" by auto
  have bl: "0 < bitLength n" using n(1) by (simp add: bitLength_pos)
  have e: "binaryExponent x = - int (bitLength n)"
    using False by (simp add: binaryExponent_def n_def y_def)
  have t1: "twoTo (binaryExponent x) = 1 / 2 ^ bitLength n"
    using bl by (simp add: e twoTo_def)
  have t2: "twoTo (binaryExponent x + 1) = 1 / 2 ^ (bitLength n - 1)"
    using bl by (cases "bitLength n") (simp_all add: e twoTo_def nat_diff_distrib')
  have "real n + 1 \<le> 2 ^ bitLength n"
    using of_nat_mono[of "Suc n" "2 ^ bitLength n", where 'a = real] b(2) by simp
  with n(3) have "y \<le> 2 ^ bitLength n" by linarith
  then have lo: "1 / 2 ^ bitLength n \<le> \<bar>x\<bar>"
    using assms by (simp add: y_def field_simps)
  have "(2::real) ^ (bitLength n - 1) \<le> real n"
    using of_nat_mono[OF b(1), where 'a = real] by simp
  with n(2) have "2 ^ (bitLength n - 1) < y" by linarith
  then have hi: "\<bar>x\<bar> < 1 / 2 ^ (bitLength n - 1)"
    using assms by (simp add: y_def field_simps)
  from lo hi show ?thesis by (simp add: t1 t2)
qed

lemma roundHalfEven_near: "\<bar>of_int (roundHalfEven x) - x\<bar> \<le> 1 / 2"
  unfolding roundHalfEven_def Let_def by (auto; linarith)

lemma roundHalfEven_of_int: "roundHalfEven (of_int n) = n"
  by (simp add: roundHalfEven_def)

text \<open>
  What is stored is within half a unit in the last place of the exact result, and its
  significand has at most 53 binary digits.
\<close>

lemma roundToDouble_near:
  assumes "roundToDouble x = Finite y" "x \<noteq> 0"
  shows "\<exists>m e. - 1074 \<le> e \<and> \<bar>m\<bar> \<le> 2 ^ 53 \<and> y = of_int m * twoTo e \<and>
           \<bar>y - x\<bar> \<le> twoTo e / 2"
proof -
  define e where "e = max (binaryExponent x - 52) (- 1074)"
  define m where "m = roundHalfEven (\<bar>x\<bar> / twoTo e)"
  have y: "y = (if 0 < x then of_int m * twoTo e else - (of_int m * twoTo e))"
    using assms by (simp add: roundToDouble_def Let_def e_def m_def split: if_splits)
  have near: "\<bar>of_int m - \<bar>x\<bar> / twoTo e\<bar> \<le> 1 / 2"
    unfolding m_def by (rule roundHalfEven_near)
  have tp: "0 < twoTo e" by (rule twoTo_pos)
  have "of_int m * twoTo e - \<bar>x\<bar> = (of_int m - \<bar>x\<bar> / twoTo e) * twoTo e"
    using tp by (simp add: field_simps)
  then have "\<bar>of_int m * twoTo e - \<bar>x\<bar>\<bar> = \<bar>of_int m - \<bar>x\<bar> / twoTo e\<bar> * twoTo e"
    using tp by (simp add: abs_mult)
  also have "\<dots> \<le> 1 / 2 * twoTo e" using near tp by (intro mult_right_mono) simp_all
  finally have d: "\<bar>of_int m * twoTo e - \<bar>x\<bar>\<bar> \<le> twoTo e / 2" by simp
  have "\<bar>x\<bar> < twoTo (binaryExponent x + 1)" using binaryExponent_bounds[OF assms(2)] by simp
  also have "binaryExponent x + 1 \<le> 53 + e" by (simp add: e_def)
  then have "twoTo (binaryExponent x + 1) \<le> twoTo (53 + e)" by (rule twoTo_mono)
  finally have "\<bar>x\<bar> < 2 ^ 53 * twoTo e" by (simp add: twoTo_add) (simp add: twoTo_def)
  then have "\<bar>x\<bar> / twoTo e < 2 ^ 53" using tp by (simp add: field_simps)
  moreover have "0 \<le> \<bar>x\<bar> / twoTo e" using tp by simp
  ultimately have "of_int m < (2::real) ^ 53 + 1" "- 1 < (of_int m :: real)"
    using near by linarith+
  then have "(of_int m :: real) < of_int (2 ^ 53 + 1)" "(of_int (- 1) :: real) < of_int m"
    by simp_all
  then have "m < 2 ^ 53 + 1" "- 1 < m" by (simp_all only: of_int_less_iff)
  then have m: "\<bar>m\<bar> \<le> 2 ^ 53" by linarith
  show ?thesis
  proof (cases "0 < x")
    case True
    with y d m show ?thesis by (intro exI[of _ m] exI[of _ e]) (simp add: e_def)
  next
    case False
    then have ax: "\<bar>x\<bar> = - x" by simp
    from False y have yy: "y = - (of_int m * twoTo e)" by simp
    have "\<bar>y - x\<bar> = \<bar>of_int m * twoTo e - \<bar>x\<bar>\<bar>"
      unfolding yy ax by (simp add: abs_minus_commute)
    with d yy have "y = of_int (- m) * twoTo e" "\<bar>y - x\<bar> \<le> twoTo e / 2" by simp_all
    with m show ?thesis by (intro exI[of _ "- m"] exI[of _ e]) (simp add: e_def)
  qed
qed



text \<open>An integer of at most 53 binary digits is stored as it is.\<close>

lemma roundToDouble_of_int:
  assumes "\<bar>n\<bar> \<le> 2 ^ 53"
  shows "roundToDouble (of_int n) = Finite (of_int n)"
proof (cases "n = 0")
  case True
  then show ?thesis by (simp add: roundToDouble_def)
next
  case False
  define x :: real where "x = of_int n"
  define e where "e = max (binaryExponent x - 52) (- 1074)"
  have x0: "x \<noteq> 0" using False by (simp add: x_def)
  have ax: "\<bar>x\<bar> = of_int \<bar>n\<bar>" by (simp add: x_def)
  have le: "\<bar>x\<bar> \<le> 2 ^ 53" using assms unfolding ax
    by (metis of_int_le_iff of_int_numeral of_int_power)
  have tp: "0 < twoTo e" by (rule twoTo_pos)
  have "\<exists>k. \<bar>x\<bar> / twoTo e = of_int k"
  proof (cases "e \<le> 0")
    case True
    then have "\<bar>x\<bar> / twoTo e = of_int (\<bar>n\<bar> * 2 ^ nat (- e))"
      by (auto simp: twoTo_def ax dest: antisym)
    then show ?thesis by blast
  next
    case pos: False
    then have "53 \<le> binaryExponent x" by (simp add: e_def)
    then have "twoTo 53 \<le> twoTo (binaryExponent x)" by (rule twoTo_mono)
    also have "\<dots> \<le> \<bar>x\<bar>" using binaryExponent_bounds[OF x0] by simp
    finally have "\<bar>x\<bar> = 2 ^ 53" using le by (simp add: twoTo_def)
    moreover from this have "binaryExponent x < 54"
      using binaryExponent_bounds[OF x0] twoTo_mono[of 54 "binaryExponent x"]
      by (cases "binaryExponent x < 54") (simp_all add: twoTo_def)
    ultimately have ex: "binaryExponent x = 53" and xv: "\<bar>x\<bar> = 2 ^ 53"
      using \<open>53 \<le> binaryExponent x\<close> by simp_all
    then have "e = 1" by (simp add: e_def)
    with xv have "\<bar>x\<bar> / twoTo e = of_int (2 ^ 52)" by (simp add: twoTo_def)
    then show ?thesis by blast
  qed
  then obtain k where k: "\<bar>x\<bar> / twoTo e = of_int k" ..
  then have y: "of_int (roundHalfEven (\<bar>x\<bar> / twoTo e)) * twoTo e = \<bar>x\<bar>"
    using tp by (simp add: roundHalfEven_of_int field_simps)
  have "\<not> (2::real) ^ 1024 \<le> \<bar>x\<bar>"
  proof -
    have "(2::real) ^ 53 < 2 ^ 1024" by (rule power_strict_increasing) simp_all
    with le show ?thesis by linarith
  qed
  with y x0 have "roundToDouble x = Finite x"
    unfolding roundToDouble_def Let_def e_def[symmetric] by (simp add: abs_if split: if_splits)
  then show ?thesis by (simp add: x_def)
qed

text \<open>Evaluation on numerals.\<close>

lemma bitLength_numeral:
  "bitLength (Suc 0) = 1"
  "bitLength 1 = 1"
  "bitLength (numeral Num.One) = 1"
  "bitLength (numeral (Num.Bit0 k)) = Suc (bitLength (numeral k))"
  "bitLength (numeral (Num.Bit1 k)) = Suc (bitLength (numeral k))"
  by (simp_all add: bitLength_pos bitLength_0 numeral_Bit0_div_2 numeral_Bit1_div_2)

lemmas double_eval = roundToDouble_def binaryExponent_def roundHalfEven_def twoTo_def
  timesDouble_def minusDouble_def scaleDouble_def lessDouble_def bitLength_0 bitLength_numeral
  Let_def

text \<open>
  The literal \<^verbatim>\<open>1.2\<close>; two products that round to the integer; a product and two differences
  that are not the exact ones (the second is \<^verbatim>\<open>30.5 - 10.1\<close>); the least number that
  overflows, the greatest that does not, a difference that overflows, and a tie between two
  subnormal numbers.
\<close>

lemma bandwidthVariance_literal: "roundToDouble (12 / 10) = Finite bandwidthVariance"
  by (simp add: double_eval bandwidthVariance_def)

lemma timesDouble_500000: "timesDouble 500000 bandwidthVariance = Finite 600000"
  by (simp add: double_eval bandwidthVariance_def)

lemma timesDouble_2000000: "timesDouble 2000000 bandwidthVariance = Finite 2400000"
  by (simp add: double_eval bandwidthVariance_def)

lemma timesDouble_rounds:
  "timesDouble 4503599627370499 bandwidthVariance = Finite 5404319552844599"
  by (simp add: double_eval bandwidthVariance_def)

lemma minusDouble_rounds: "minusDouble (2 ^ 53) (1 / 2) = Finite (2 ^ 53)"
  by (simp add: double_eval)

lemma literal_10_1: "roundToDouble (101 / 10) = Finite (5685794529555251 / 562949953421312)"
  by (simp add: double_eval)

lemma minusDouble_30_5_10_1:
  "minusDouble (61 / 2) (5685794529555251 / 562949953421312) =
     Finite (5742089524897382 / 281474976710656)"
  by (simp add: double_eval)

lemma roundToDouble_overflow: "roundToDouble (2 ^ 1024 - 2 ^ 970) = PositiveInfinity"
  by (simp add: double_eval)

lemma roundToDouble_greatest:
  "roundToDouble (2 ^ 1024 - 2 ^ 970 - 1) = Finite (2 ^ 1024 - 2 ^ 971)"
  by (simp add: double_eval)

lemma minusDouble_overflow: "minusDouble (- (2 ^ 1023)) (2 ^ 1023) = NegativeInfinity"
  by (simp add: double_eval)

lemma roundToDouble_subnormal: "roundToDouble (3 / 2 ^ 1075) = Finite (1 / 2 ^ 1073)"
  by (simp add: double_eval)

section \<open>Properties of \<^verbatim>\<open>findSoleUncommonTimeRangesEnd_\<close>\<close>

lemma saveEdges_append: "saveEdges r edges = edges @ r"
  by (induction r edges rule: saveEdges.induct) simp_all

lemma list_ex_overlaps: "list_ex (overlapsCurrentEnd e) edges = coveredBy edges e"
  by (auto simp: list_ex_iff coveredBy_def overlapsCurrentEnd_def)

lemma uncommonEnds_filter:
  "uncommonEnds edges r result = result @ filter (\<lambda>e. \<not> coveredBy edges e) (map snd r)"
  by (induction edges r result rule: uncommonEnds.induct) (simp_all add: list_ex_overlaps)

lemma findSole_filter:
  "findSoleUncommonTimeRangesEnd original update =
     (let result = filter (\<lambda>e. \<not> coveredBy (rangesOf original) e) (map snd (rangesOf update))
      in if length result \<noteq> 1 then None else Some (result ! 0))"
  by (simp add: findSoleUncommonTimeRangesEnd_def rangesOf_def saveEdges_append
      uncommonEnds_filter Let_def split: option.splits)

lemma filter_single_iff:
  "filter P xs = [e] \<longleftrightarrow>
     (\<exists>i<length xs. xs ! i = e \<and> P e \<and> (\<forall>j<length xs. j \<noteq> i \<longrightarrow> \<not> P (xs ! j)))"
proof (induction xs)
  case Nil
  then show ?case by simp
next
  case (Cons x xs)
  show ?case
  proof (cases "P x")
    case True
    have "filter P (x # xs) = [e] \<longleftrightarrow> x = e \<and> filter P xs = []"
      using True by auto
    also have "\<dots> \<longleftrightarrow> x = e \<and> (\<forall>j<length xs. \<not> P (xs ! j))"
      by (simp add: filter_empty_conv all_set_conv_all_nth)
    also have "\<dots> \<longleftrightarrow> (\<exists>i<length (x # xs). (x # xs) ! i = e \<and> P e \<and>
        (\<forall>j<length (x # xs). j \<noteq> i \<longrightarrow> \<not> P ((x # xs) ! j)))" (is "?L \<longleftrightarrow> ?R")
    proof
      assume l: ?L
      have "(x # xs) ! 0 = e \<and> P e \<and> (\<forall>j<length (x # xs). j \<noteq> 0 \<longrightarrow> \<not> P ((x # xs) ! j))"
        using l True by (auto simp: nth_Cons')
      then show ?R by (intro exI[of _ 0]) simp
    next
      assume ?R
      then obtain i where i: "i < length (x # xs)" "(x # xs) ! i = e" "P e"
        "\<forall>j<length (x # xs). j \<noteq> i \<longrightarrow> \<not> P ((x # xs) ! j)" by blast
      have "i = 0" using i(4) True by (cases i) auto
      with i show ?L by (auto simp: nth_Cons')  
    qed
    finally show ?thesis .
  next
    case False
    have "filter P (x # xs) = [e] \<longleftrightarrow> filter P xs = [e]" using False by simp
    also have "\<dots> \<longleftrightarrow> (\<exists>i<length xs. xs ! i = e \<and> P e \<and> (\<forall>j<length xs. j \<noteq> i \<longrightarrow> \<not> P (xs ! j)))"
      by (rule Cons.IH)
    also have "\<dots> \<longleftrightarrow> (\<exists>i<length (x # xs). (x # xs) ! i = e \<and> P e \<and>
        (\<forall>j<length (x # xs). j \<noteq> i \<longrightarrow> \<not> P ((x # xs) ! j)))" (is "?L \<longleftrightarrow> ?R")
    proof
      assume ?L
      then obtain i where i: "i < length xs" "xs ! i = e" "P e"
        "\<forall>j<length xs. j \<noteq> i \<longrightarrow> \<not> P (xs ! j)" by blast
      have "Suc i < length (x # xs) \<and> (x # xs) ! Suc i = e \<and> P e \<and>
        (\<forall>j<length (x # xs). j \<noteq> Suc i \<longrightarrow> \<not> P ((x # xs) ! j))"
        using i False by (auto simp: nth_Cons split: nat.splits)
      then show ?R by blast
    next
      assume ?R
      then obtain i where i: "i < length (x # xs)" "(x # xs) ! i = e" "P e"
        "\<forall>j<length (x # xs). j \<noteq> i \<longrightarrow> \<not> P ((x # xs) ! j)" by blast
      from i False obtain k where k: "i = Suc k" by (cases i) auto
      have "k < length xs \<and> xs ! k = e \<and> P e \<and> (\<forall>j<length xs. j \<noteq> k \<longrightarrow> \<not> P (xs ! j))"
        using i k by (auto dest: spec[of _ "Suc _"])
      then show ?L by blast
    qed
    finally show ?thesis .
  qed
qed

lemma single_iff: "(length xs = 1 \<and> xs ! 0 = e) \<longleftrightarrow> xs = [e]"
  by (cases xs) auto

lemma distinct_single_iff: "distinct ys \<Longrightarrow> (ys = [e] \<longleftrightarrow> set ys = {e})"
  by (cases ys) (auto simp: subset_singleton_iff)

text \<open>
  Claim C1. The function returns \<open>e\<close> exactly when one range of \<open>update\<close>, and no other, has
  an end that no range of \<open>original\<close> covers, and \<open>e\<close> is that end; it returns null exactly
  when the number of ranges of \<open>update\<close> with an uncovered end is not one. When the ranges of
  \<open>update\<close> have different ends, as the ranges of a \<^verbatim>\<open>TimeRanges\<close> object do, this is to say
  that \<open>e\<close> is the only uncovered end-point. For \<open>[[0,10]]\<close> before and \<open>[[0,10],[10,25]]\<close>
  after it returns 25.
\<close>

theorem findSole_sole_uncovered_end:
  "(findSoleUncommonTimeRangesEnd original update = Some e \<longleftrightarrow>
      (\<exists>i<length (rangesOf update). snd (rangesOf update ! i) = e \<and>
          \<not> coveredBy (rangesOf original) e \<and>
          (\<forall>j<length (rangesOf update). j \<noteq> i \<longrightarrow>
              coveredBy (rangesOf original) (snd (rangesOf update ! j)))))
   \<and> (findSoleUncommonTimeRangesEnd original update = None \<longleftrightarrow>
        card {i. i < length (rangesOf update) \<and>
                 \<not> coveredBy (rangesOf original) (snd (rangesOf update ! i))} \<noteq> 1)
   \<and> (distinct (map snd (rangesOf update)) \<longrightarrow>
        (findSoleUncommonTimeRangesEnd original update = Some e \<longleftrightarrow>
           {x \<in> snd ` set (rangesOf update). \<not> coveredBy (rangesOf original) x} = {e}))
   \<and> findSoleUncommonTimeRangesEnd (Some [(0, 10)]) (Some [(0, 10), (10, 25)]) = Some 25"
proof (intro conjI)
  let ?P = "\<lambda>e. \<not> coveredBy (rangesOf original) e"
  let ?ends = "map snd (rangesOf update)"
  have "findSoleUncommonTimeRangesEnd original update = Some e \<longleftrightarrow> filter ?P ?ends = [e]"
    by (auto simp: findSole_filter Let_def single_iff[symmetric])
  also have "\<dots> \<longleftrightarrow> (\<exists>i<length ?ends. ?ends ! i = e \<and> ?P e \<and>
      (\<forall>j<length ?ends. j \<noteq> i \<longrightarrow> \<not> ?P (?ends ! j)))"
    by (rule filter_single_iff)
  finally show "findSoleUncommonTimeRangesEnd original update = Some e \<longleftrightarrow>
      (\<exists>i<length (rangesOf update). snd (rangesOf update ! i) = e \<and>
          \<not> coveredBy (rangesOf original) e \<and>
          (\<forall>j<length (rangesOf update). j \<noteq> i \<longrightarrow>
              coveredBy (rangesOf original) (snd (rangesOf update ! j))))"
    by auto
next
  have "length (filter (\<lambda>e. \<not> coveredBy (rangesOf original) e) (map snd (rangesOf update)))
      = card {i. i < length (rangesOf update) \<and>
                 \<not> coveredBy (rangesOf original) (snd (rangesOf update ! i))}"
    by (simp add: length_filter_conv_card cong: conj_cong)
  then show "findSoleUncommonTimeRangesEnd original update = None \<longleftrightarrow>
        card {i. i < length (rangesOf update) \<and>
                 \<not> coveredBy (rangesOf original) (snd (rangesOf update ! i))} \<noteq> 1"
    by (simp add: findSole_filter Let_def)
next
  show "distinct (map snd (rangesOf update)) \<longrightarrow>
        (findSoleUncommonTimeRangesEnd original update = Some e \<longleftrightarrow>
           {x \<in> snd ` set (rangesOf update). \<not> coveredBy (rangesOf original) x} = {e})"
  proof
    assume d: "distinct (map snd (rangesOf update))"
    let ?P = "\<lambda>e. \<not> coveredBy (rangesOf original) e"
    let ?ends = "map snd (rangesOf update)"
    have "findSoleUncommonTimeRangesEnd original update = Some e \<longleftrightarrow> filter ?P ?ends = [e]"
      by (auto simp: findSole_filter Let_def single_iff[symmetric])
    also have "\<dots> \<longleftrightarrow> set (filter ?P ?ends) = {e}"
      using d by (intro distinct_single_iff distinct_filter)
    also have "set (filter ?P ?ends) = {x \<in> snd ` set (rangesOf update). ?P x}"
      by auto
    finally show "findSoleUncommonTimeRangesEnd original update = Some e \<longleftrightarrow>
        {x \<in> snd ` set (rangesOf update). \<not> coveredBy (rangesOf original) x} = {e}" .
  qed
next
  show "findSoleUncommonTimeRangesEnd (Some [(0, 10)]) (Some [(0, 10), (10, 25)]) = Some 25"
    by (simp add: findSoleUncommonTimeRangesEnd_def overlapsCurrentEnd_def)
qed

theorem findSole_sole_uncovered_end_witness:
  "(\<exists>i<length [(0::real, 10::real), (10, 25)].
      snd ([(0::real, 10::real), (10, 25)] ! i) = 25 \<and> \<not> coveredBy [(0, 10)] 25 \<and>
      (\<forall>j<length [(0::real, 10::real), (10, 25)].
          j \<noteq> i \<longrightarrow> coveredBy [(0, 10)] (snd ([(0::real, 10::real), (10, 25)] ! j))))
   \<and> {x \<in> snd ` set [(0::real, 10::real), (10, 25)]. \<not> coveredBy [(0, 10)] x} = {25}"
proof -
  note t = findSole_sole_uncovered_end [of "Some [(0, 10)]" "Some [(0, 10), (10, 25)]" 25,
      unfolded rangesOf_def option.case]
  from t have a: "\<exists>i<length [(0::real, 10::real), (10, 25)].
      snd ([(0::real, 10::real), (10, 25)] ! i) = 25 \<and> \<not> coveredBy [(0, 10)] 25 \<and>
      (\<forall>j<length [(0::real, 10::real), (10, 25)].
          j \<noteq> i \<longrightarrow> coveredBy [(0, 10)] (snd ([(0::real, 10::real), (10, 25)] ! j)))"
    by blast
  have "distinct (map snd [(0::real, 10::real), (10, 25)])" by simp
  with t have b: "{x \<in> snd ` set [(0::real, 10::real), (10, 25)]. \<not> coveredBy [(0, 10)] x} = {25}"
    by blast
  from a b show ?thesis by (rule conjI)
qed

section \<open>Properties of \<^verbatim>\<open>updateSegmentMetadata\<close> and the growth of a range\<close>

text \<open>
  Claim C2 as stated fails: for \<open>[[0,10]]\<close> before and \<open>[[0,12]]\<close> after the function returns
  12, not null.
\<close>

theorem findSole_grow_counterexample:
  "findSoleUncommonTimeRangesEnd (Some [(0, 10)]) (Some [(0, 12)]) = Some 12"
  by (simp add: findSoleUncommonTimeRangesEnd_def overlapsCurrentEnd_def)

text \<open>
  Claim C2, amended. When a single range keeps its start and moves its end, the new end
  qualifies exactly when it lies beyond the old end: growth returns the new end, shrinking
  (or no change) returns null.
\<close>

theorem findSole_grow_qualifies_shrink_does_not:
  "s \<le> e' \<Longrightarrow>
     findSoleUncommonTimeRangesEnd (Some [(s, e)]) (Some [(s, e')]) =
       (if e' \<le> e then None else Some e')"
  by (simp add: findSoleUncommonTimeRangesEnd_def overlapsCurrentEnd_def)

theorem findSole_grow_qualifies_shrink_does_not_witness:
  "findSoleUncommonTimeRangesEnd (Some [(0, 10)]) (Some [(0, 12)]) = Some 12 \<and>
   findSoleUncommonTimeRangesEnd (Some [(0, 10)]) (Some [(0, 8)]) = None"
  using findSole_grow_qualifies_shrink_does_not [of 0 12 10]
    findSole_grow_qualifies_shrink_does_not [of 0 8 10]
  by simp

text \<open>
  Claim C9 as stated fails: the end time 0 is not null, and the segment's end is not set.
\<close>

theorem updateSegmentMetadata_zero_end_counterexample:
  "updateSegmentMetadata (Some (exPlaylist (Some [exSegment (Some 10) None]))) 0 (Some 0)
     = Inr (Some (exPlaylist (Some [exSegment (Some 10) None])))
   \<and> seg_end (exSegment (Some 10) None) \<noteq> Some 0"
  by (simp add: updateSegmentMetadata_def exPlaylist_def exSegment_def segmentAt_def truthyNum_def)

text \<open>
  Claim C9, amended. With an end time that is neither null nor 0 and an index inside the
  segment list, the addressed segment gets that end; its duration becomes the end for the
  first segment, and otherwise the end minus the previous segment's end, as the subtraction
  on doubles gives it, when that end is known and not 0 (the duration is kept when it is
  not). Nothing else changes. With the end time null nothing is modified.
\<close>

theorem updateSegmentMetadata_sets_end_and_duration:
  "(segments pl = Some segs \<and> 0 \<le> i \<and> i < int (length segs) \<and> e \<noteq> 0 \<longrightarrow>
      updateSegmentMetadata (Some pl) i (Some e) =
        Inr (Some (pl\<lparr>segments := Some (segs[nat i := (segs ! nat i)
          \<lparr>seg_end := Some e,
           seg_duration :=
             (if i = 0 then Some (Finite e)
              else (case seg_end (segs ! nat (i - 1)) of
                      None \<Rightarrow> seg_duration (segs ! nat i)
                    | Some pe \<Rightarrow> if pe \<noteq> 0 then Some (roundToDouble (e - pe))
                                else seg_duration (segs ! nat i)))\<rparr>])\<rparr>)))
   \<and> updateSegmentMetadata playlist i None =
        (if lacksSegments playlist then Inl TypeError else Inr playlist)"
  by (auto simp: updateSegmentMetadata_def segmentAt_def truthyNum_def lacksSegments_def Let_def
      minusDouble_def split: option.splits)

theorem updateSegmentMetadata_sets_end_and_duration_witness:
  "updateSegmentMetadata
     (Some (exPlaylist (Some [exSegment (Some 10) (Some 9), exSegment (Some 10) None]))) 1 (Some 20)
     = Inr (Some (exPlaylist
         (Some [exSegment (Some 10) (Some 9), exSegment (Some 11) (Some 20)])))
   \<and> updateSegmentMetadata
     (Some (exPlaylist (Some [exSegment None (Some (1 / 2)), exSegment None None]))) 1
     (Some (2 ^ 53))
     = Inr (Some (exPlaylist
         (Some [exSegment None (Some (1 / 2)), exSegment (Some (2 ^ 53)) (Some (2 ^ 53))])))"
  using updateSegmentMetadata_sets_end_and_duration
    [of "exPlaylist (Some [exSegment (Some 10) (Some 9), exSegment (Some 10) None])"
        "[exSegment (Some 10) (Some 9), exSegment (Some 10) None]" 1 20]
    updateSegmentMetadata_sets_end_and_duration
    [of "exPlaylist (Some [exSegment None (Some (1 / 2)), exSegment None None])"
        "[exSegment None (Some (1 / 2)), exSegment None None]" 1 "2 ^ 53"]
  by (simp add: exPlaylist_def exSegment_def double_eval)

text \<open>
  Claim C10. With an end time of exactly 0 the call modifies nothing, for every playlist and
  every index: it behaves as the call with no end time at all.
\<close>

theorem updateSegmentMetadata_zero_end_is_no_update:
  "updateSegmentMetadata playlist segmentIndex (Some 0) =
     (if lacksSegments playlist then Inl TypeError else Inr playlist)
   \<and> updateSegmentMetadata playlist segmentIndex (Some 0) =
       updateSegmentMetadata playlist segmentIndex None"
  by (auto simp: updateSegmentMetadata_def segmentAt_def truthyNum_def lacksSegments_def Let_def
      split: option.splits)

theorem updateSegmentMetadata_zero_end_is_no_update_witness:
  "updateSegmentMetadata
     (Some (exPlaylist (Some [exSegment (Some 10) (Some 9), exSegment (Some 10) None]))) 1 (Some 0)
     = Inr (Some (exPlaylist (Some [exSegment (Some 10) (Some 9), exSegment (Some 10) None])))"
  using updateSegmentMetadata_zero_end_is_no_update
    [of "Some (exPlaylist (Some [exSegment (Some 10) (Some 9), exSegment (Some 10) None]))" 1]
  by (simp add: lacksSegments_def exPlaylist_def)

section \<open>Properties of \<^verbatim>\<open>selectPlaylist\<close>\<close>

subsection \<open>sorting\<close>

lemma insortBy_set:
  "insortBy cmp x ys = Inr r \<Longrightarrow> set r = insert x (set ys) \<and> length r = Suc (length ys)"
proof (induction ys arbitrary: r)
  case Nil
  then show ?case by auto
next
  case (Cons y ys)
  show ?case
  proof (cases "cmp x y")
    case (Inl e)
    with Cons.prems show ?thesis by simp
  next
    case (Inr c)
    show ?thesis
    proof (cases "c \<le> 0")
      case True
      with Cons.prems Inr show ?thesis by auto
    next
      case False
      with Cons.prems Inr obtain r' where r': "insortBy cmp x ys = Inr r'" "r = y # r'"
        by (auto split: sum.splits)
      from Cons.IH[OF r'(1)] r'(2) show ?thesis by auto
    qed
  qed
qed

lemma sortBy_set: "sortBy cmp xs = Inr r \<Longrightarrow> set r = set xs \<and> length r = length xs"
proof (induction xs arbitrary: r)
  case Nil
  then show ?case by simp
next
  case (Cons x xs)
  then obtain s where s: "sortBy cmp xs = Inr s" and r: "insortBy cmp x s = Inr r"
    by (auto split: sum.splits)
  from Cons.IH[OF s] insortBy_set[OF r] show ?case by simp
qed

lemma insortBy_total:
  "\<forall>y \<in> set ys. \<exists>c. cmp x y = Inr c \<Longrightarrow> \<exists>r. insortBy cmp x ys = Inr r"
  by (induction ys) (auto split: sum.splits)

lemma sortBy_total:
  "\<forall>a \<in> set xs. \<forall>b \<in> set xs. \<exists>c. cmp a b = Inr c \<Longrightarrow> \<exists>r. sortBy cmp xs = Inr r"
proof (induction xs)
  case Nil
  then show ?case by simp
next
  case (Cons x xs)
  then obtain s where s: "sortBy cmp xs = Inr s" by auto
  have "\<forall>y \<in> set s. \<exists>c. cmp x y = Inr c"
    using Cons.prems sortBy_set[OF s] by simp
  then have "\<exists>r. insortBy cmp x s = Inr r" by (rule insortBy_total)
  with s show ?case by auto
qed

lemma insortBy_key_sorted:
  assumes "\<And>a b. cmp a b = Inr (k a - k b)" and "sorted (map k ys)"
    and "insortBy cmp x ys = Inr r"
  shows "sorted (map (k :: 'a \<Rightarrow> real) r)"
  using assms(2,3)
proof (induction ys arbitrary: r)
  case Nil
  then show ?case by auto
next
  case (Cons y ys)
  have c: "cmp x y = Inr (k x - k y)" by (rule assms(1))
  show ?case
  proof (cases "k x - k y \<le> 0")
    case True
    with Cons.prems(2) c have r: "r = x # y # ys" by simp
    from Cons.prems(1) have "\<forall>z \<in> set ys. k y \<le> k z" "sorted (map k ys)" by simp_all
    with True have "\<forall>z \<in> set ys. k x \<le> k z" by fastforce
    with True Cons.prems(1) r show ?thesis by simp
  next
    case False
    with Cons.prems(2) c obtain r' where r': "insortBy cmp x ys = Inr r'" "r = y # r'"
      by (auto split: sum.splits)
    from Cons.prems have "sorted (map k ys)" by simp
    from Cons.IH[OF this r'(1)] have "sorted (map k r')" .
    moreover have "\<forall>z \<in> set r'. k y \<le> k z"
      using insortBy_set[OF r'(1)] Cons.prems(1) False by auto
    ultimately show ?thesis using r'(2) by simp
  qed
qed

lemma sortBy_key_sorted:
  assumes "\<And>a b. cmp a b = Inr (k a - k b)" and "sortBy cmp xs = Inr r"
  shows "sorted (map (k :: 'a \<Rightarrow> real) r)"
  using assms(2)
proof (induction xs arbitrary: r)
  case Nil
  then show ?case by simp
next
  case (Cons x xs)
  then obtain s where s: "sortBy cmp xs = Inr s" and r: "insortBy cmp x s = Inr r"
    by (auto split: sum.splits)
  from insortBy_key_sorted[OF assms(1) Cons.IH[OF s] r] show ?case .
qed

lemma sortBy_bandwidth:
  "\<exists>s. sortBy (\<lambda>a b. Inr (comparePlaylistBandwidth (get a) (get b))) xs = Inr s \<and>
       set s = set xs \<and> length s = length xs \<and> ascendingBandwidth get s"
proof -
  let ?cmp = "\<lambda>a b. Inr (comparePlaylistBandwidth (get a) (get b)) :: error + real"
  obtain s where s: "sortBy ?cmp xs = Inr s"
    using sortBy_total[of xs ?cmp] by auto
  have "sorted (map (\<lambda>v. orMaxValue (declaredBandwidth (get v))) s)"
    by (rule sortBy_key_sorted[OF _ s]) (simp add: comparePlaylistBandwidth_def)
  with s sortBy_set[OF s] show ?thesis by (simp add: ascendingBandwidth_def)
qed

subsection \<open>the bandwidth loop\<close>

lemma bandwidthLoop_filter:
  "bandwidthLoop get estimate xs (acc, best) =
     (acc @ filter (passesVariance get estimate) xs,
      orElse best (case filter (passesVariance get estimate) xs of [] \<Rightarrow> None | v # _ \<Rightarrow> Some v))"
proof (induction xs arbitrary: acc best)
  case Nil
  then show ?case by (simp add: orElse_def split: option.splits)
next
  case (Cons x xs)
  show ?case
    by (cases best)
       (simp_all add: Cons.IH passesVariance_def orElse_def Let_def split: option.splits)
qed

lemma bandwidthEligible_filter:
  "bandwidthEligible get estimate xs = filter (passesVariance get estimate) (rev xs)"
  by (simp add: bandwidthEligible_def bandwidthLoop_filter)

lemma bandwidthCandidate_hd:
  "bandwidthCandidate get estimate xs =
     (case bandwidthEligible get estimate xs of [] \<Rightarrow> None | v # _ \<Rightarrow> Some v)"
  by (simp add: bandwidthCandidate_def bandwidthEligible_filter bandwidthLoop_filter orElse_def)

lemma first_of_descending:
  assumes "sorted (map k xs)" and "filter P (rev xs) = c # rest"
  shows "\<forall>v \<in> set xs. P v \<longrightarrow> (k v :: real) \<le> k c"
  using assms
proof (induction xs rule: rev_induct)
  case Nil
  then show ?case by simp
next
  case (snoc x xs)
  from snoc.prems(1) have sx: "sorted (map k xs)" and le: "\<forall>v \<in> set xs. k v \<le> k x"
    by (auto simp: sorted_append)
  show ?case
  proof (cases "P x")
    case True
    with snoc.prems(2) have "c = x" by simp
    with le show ?thesis by auto
  next
    case False
    with snoc.prems(2) have "filter P (rev xs) = c # rest" by simp
    from snoc.IH[OF sx this] False show ?thesis by auto
  qed
qed

subsection \<open>the resolution loop\<close>

lemma resolutionLoop_from:
  "resolutionLoop get width height xs (rpo, attr, best) = (rpo', attr', best') \<Longrightarrow>
     (rpo' = None \<or> rpo' = rpo \<or> (\<exists>v \<in> set xs. rpo' = Some v)) \<and>
     (best' = best \<or> (\<exists>v \<in> set xs. best' = Some v))"
proof (induction xs arbitrary: rpo attr best)
  case Nil
  then show ?case by simp
next
  case (Cons x xs)
  show ?case
  proof (cases "declaredResolution (get x)")
    case None
    with Cons.prems have "resolutionLoop get width height xs (rpo, attr, best) = (rpo', attr', best')"
      by simp
    from Cons.IH[OF this] show ?thesis by auto
  next
    case (Some wh)
    obtain w h where wh: "wh = (w, h)" by (cases wh)
    consider (exact) "Some w = width \<and> Some h = height"
      | (below) "\<not> (Some w = width \<and> Some h = height)" "ltDim w width \<and> ltDim h height"
      | (take) "\<not> (Some w = width \<and> Some h = height)" "\<not> (ltDim w width \<and> ltDim h height)"
          "(case rpo of None \<Rightarrow> True | Some _ \<Rightarrow> False) \<or>
           (case attr of None \<Rightarrow> False | Some (pw, ph) \<Rightarrow> w < pw \<and> h < ph)"
      | (skip) "\<not> (Some w = width \<and> Some h = height)" "\<not> (ltDim w width \<and> ltDim h height)"
          "\<not> ((case rpo of None \<Rightarrow> True | Some _ \<Rightarrow> False) \<or>
           (case attr of None \<Rightarrow> False | Some (pw, ph) \<Rightarrow> w < pw \<and> h < ph))"
      by blast
    then show ?thesis
    proof cases
      case exact
      with Cons.prems Some wh show ?thesis by auto
    next
      case below
      with Cons.prems Some wh show ?thesis by auto
    next
      case take
      with Cons.prems Some wh
      have "resolutionLoop get width height xs (Some x, Some (w, h), best) = (rpo', attr', best')"
        by simp
      from Cons.IH[OF this] show ?thesis by auto
    next
      case skip
      with Cons.prems Some wh
      have "resolutionLoop get width height xs (rpo, attr, best) = (rpo', attr', best')"
        by simp
      from Cons.IH[OF this] show ?thesis by auto
    qed
  qed
qed

subsection \<open>the whole selection\<close>

lemma passesVariance_attributes:
  "passesVariance get estimate v \<Longrightarrow> pl_attributes (get v) \<noteq> None"
  by (auto simp: passesVariance_def declaredBandwidth_def split: option.splits)

lemma comparePlaylistResolution_total:
  "pl_attributes l \<noteq> None \<Longrightarrow> pl_attributes r \<noteq> None \<Longrightarrow>
     \<exists>c. comparePlaylistResolution l r = Inr c"
  by (auto simp: comparePlaylistResolution_def Let_def split: option.splits)

text \<open>The steps of the selection, named.\<close>

lemma selectPlaylistOn_steps:
  obtains byBandwidth bandwidthPlaylists rpo attr best where
    "sortBy (\<lambda>a b. Inr (comparePlaylistBandwidth (get a) (get b))) master = Inr byBandwidth"
    "set byBandwidth = set master"
    "ascendingBandwidth get byBandwidth"
    "sortBy (\<lambda>a b. comparePlaylistResolution (get a) (get b))
       (bandwidthEligible get estimate (filter (\<lambda>v. notExcluded now (get v)) byBandwidth))
       = Inr bandwidthPlaylists"
    "set bandwidthPlaylists =
       set (bandwidthEligible get estimate (filter (\<lambda>v. notExcluded now (get v)) byBandwidth))"
    "resolutionLoop get width height (rev bandwidthPlaylists) (None, None, None) = (rpo, attr, best)"
    "selectPlaylistOn get master estimate now width height =
       Inr (orElse rpo (orElse best
         (orElse (bandwidthCandidate get estimate (filter (\<lambda>v. notExcluded now (get v)) byBandwidth))
           (case filter (\<lambda>v. notExcluded now (get v)) byBandwidth of [] \<Rightarrow> None | v # _ \<Rightarrow> Some v))))"
proof -
  obtain s where s: "sortBy (\<lambda>a b. Inr (comparePlaylistBandwidth (get a) (get b))) master = Inr s"
    "set s = set master" "ascendingBandwidth get s"
    using sortBy_bandwidth[of get master] by blast
  let ?f = "filter (\<lambda>v. notExcluded now (get v)) s"
  let ?e = "bandwidthEligible get estimate ?f"
  have "\<forall>a \<in> set ?e. pl_attributes (get a) \<noteq> None"
    by (auto simp: bandwidthEligible_filter dest: passesVariance_attributes)
  then have "\<forall>a \<in> set ?e. \<forall>b \<in> set ?e. \<exists>c. comparePlaylistResolution (get a) (get b) = Inr c"
    using comparePlaylistResolution_total by blast
  from sortBy_total[OF this] obtain bp where
    bp: "sortBy (\<lambda>a b. comparePlaylistResolution (get a) (get b)) ?e = Inr bp" by blast
  obtain rpo attr best where
    rl: "resolutionLoop get width height (rev bp) (None, None, None) = (rpo, attr, best)"
    by (cases "resolutionLoop get width height (rev bp) (None, None, None)") auto
  have loop: "bandwidthLoop get estimate (rev ?f) ([], None) = (?e, bandwidthCandidate get estimate ?f)"
    by (simp add: bandwidthEligible_def bandwidthCandidate_def)
  have "selectPlaylistOn get master estimate now width height =
       Inr (orElse rpo (orElse best
         (orElse (bandwidthCandidate get estimate ?f)
           (case ?f of [] \<Rightarrow> None | v # _ \<Rightarrow> Some v))))"
    unfolding selectPlaylistOn_def by (simp add: s(1) loop bp rl Let_def)
  with s bp rl sortBy_set[OF bp] show ?thesis using that by blast
qed

lemma selectPlaylistOn_total:
  "\<exists>r. selectPlaylistOn get master estimate now width height = Inr r"
  by (rule selectPlaylistOn_steps[of get master estimate now width height]) blast

lemma selectPlaylistOn_member:
  assumes "selectPlaylistOn get master estimate now width height = Inr (Some v)"
  shows "v \<in> set master \<and> notExcluded now (get v)"
proof (rule selectPlaylistOn_steps[of get master estimate now width height])
  fix s bp rpo attr best
  let ?f = "filter (\<lambda>v. notExcluded now (get v)) s"
  let ?e = "bandwidthEligible get estimate ?f"
  assume s: "set s = set master"
    and bp: "set bp = set ?e"
    and rl: "resolutionLoop get width height (rev bp) (None, None, None) = (rpo, attr, best)"
    and sel: "selectPlaylistOn get master estimate now width height =
       Inr (orElse rpo (orElse best (orElse (bandwidthCandidate get estimate ?f)
           (case ?f of [] \<Rightarrow> None | v # _ \<Rightarrow> Some v))))"
  have e_sub: "set ?e \<subseteq> set ?f" by (auto simp: bandwidthEligible_filter)
  from resolutionLoop_from[OF rl] bp
  have r1: "rpo = None \<or> (\<exists>v \<in> set ?e. rpo = Some v)"
    and r2: "best = None \<or> (\<exists>v \<in> set ?e. best = Some v)" by auto
  have r3: "bandwidthCandidate get estimate ?f = None \<or>
      (\<exists>v \<in> set ?e. bandwidthCandidate get estimate ?f = Some v)"
    by (auto simp: bandwidthCandidate_hd split: list.splits)
  have r4: "(case ?f of [] \<Rightarrow> None | v # _ \<Rightarrow> Some v) = None \<or>
      (\<exists>v \<in> set ?f. (case ?f of [] \<Rightarrow> None | v # _ \<Rightarrow> Some v) = Some v)"
    by (cases ?f) auto
  from assms sel r1 r2 r3 r4 e_sub have "v \<in> set ?f"
    by (auto simp: orElse_def split: option.splits)
  with s show ?thesis by auto
qed

lemma selectPlaylistOn_nonempty:
  assumes "v \<in> set master" "notExcluded now (get v)"
  shows "\<exists>r. selectPlaylistOn get master estimate now width height = Inr (Some r)"
proof (rule selectPlaylistOn_steps[of get master estimate now width height])
  fix s bp rpo attr best
  let ?f = "filter (\<lambda>v. notExcluded now (get v)) s"
  assume s: "set s = set master"
    and sel: "selectPlaylistOn get master estimate now width height =
       Inr (orElse rpo (orElse best (orElse (bandwidthCandidate get estimate ?f)
           (case ?f of [] \<Rightarrow> None | v # _ \<Rightarrow> Some v))))"
  from assms s have "?f \<noteq> []" by (auto simp: filter_empty_conv)
  then show ?thesis unfolding sel by (cases ?f) (auto simp: orElse_def split: option.splits)
qed

lemma selectPlaylistOn_eligible:
  assumes "selectPlaylistOn get master estimate now width height = Inr (Some v)"
    and "w \<in> set master" "notExcluded now (get w)" "passesVariance get estimate w"
  shows "passesVariance get estimate v"
proof (rule selectPlaylistOn_steps[of get master estimate now width height])
  fix s bp rpo attr best
  let ?f = "filter (\<lambda>v. notExcluded now (get v)) s"
  let ?e = "bandwidthEligible get estimate ?f"
  assume s: "set s = set master"
    and bp: "set bp = set ?e"
    and rl: "resolutionLoop get width height (rev bp) (None, None, None) = (rpo, attr, best)"
    and sel: "selectPlaylistOn get master estimate now width height =
       Inr (orElse rpo (orElse best (orElse (bandwidthCandidate get estimate ?f)
           (case ?f of [] \<Rightarrow> None | v # _ \<Rightarrow> Some v))))"
  from assms(2-4) s have ne: "?e \<noteq> []"
    by (auto simp: bandwidthEligible_filter filter_empty_conv)
  from resolutionLoop_from[OF rl] bp
  have r1: "rpo = None \<or> (\<exists>v \<in> set ?e. rpo = Some v)"
    and r2: "best = None \<or> (\<exists>v \<in> set ?e. best = Some v)" by auto
  from ne have r3: "\<exists>v \<in> set ?e. bandwidthCandidate get estimate ?f = Some v"
    by (cases ?e) (auto simp: bandwidthCandidate_hd)
  from assms(1) sel r1 r2 r3 have "v \<in> set ?e"
    by (auto simp: orElse_def split: option.splits)
  then show ?thesis by (simp add: bandwidthEligible_filter)
qed

lemma notExcluded_iff: "notExcluded now p \<longleftrightarrow> \<not> excludedInFuture now p"
  by (auto simp: notExcluded_def excludedInFuture_def split: option.splits number.splits)

text \<open>
  Claim C3. Whatever the master list, the exclusion state, the bandwidth estimate, the clock
  and the player size, \<^verbatim>\<open>selectPlaylist\<close> returns (it never throws), and a playlist it returns
  is one of the master list whose \<^verbatim>\<open>excludeUntil\<close> is not strictly in the future. A playlist
  excluded at time \<open>T\<close>, that is with \<^verbatim>\<open>excludeUntil\<close> \<open>T\<close> plus the blacklist time, passes the
  filter exactly when \<open>now \<ge> T + 300000\<close>; alone in the master list it is returned from that
  moment on and nothing is returned before. On the handler, the playlist returned is not
  excluded at the time the call reads from the clock.
\<close>

theorem selectPlaylist_never_returns_excluded:
  "(selectPlaylistOn get master estimate now width height = Inr (Some v) \<longrightarrow>
       v \<in> set master \<and> \<not> excludedInFuture now (get v))
   \<and> (\<exists>r. selectPlaylistOn get master estimate now width height = Inr r)
   \<and> (excludeUntil p = Some (Num (T + blacklistDuration)) \<longrightarrow>
        (notExcluded now p \<longleftrightarrow> now \<ge> T + 5 * 60 * 1000) \<and>
        selectPlaylistOn (\<lambda>x. x) [p] estimate now width height =
          (if now \<ge> T + 5 * 60 * 1000 then Inr (Some p) else Inr None))
   \<and> (selectPlaylist env h = Inr (Some r, h') \<longrightarrow>
        \<not> excludedInFuture (clock env (clockReads h)) (plHeap h r))"
proof (intro conjI impI)
  assume "selectPlaylistOn get master estimate now width height = Inr (Some v)"
  from selectPlaylistOn_member[OF this]
  show "v \<in> set master" and "\<not> excludedInFuture now (get v)"
    by (simp_all add: notExcluded_iff)
next
  show "\<exists>r. selectPlaylistOn get master estimate now width height = Inr r"
    by (rule selectPlaylistOn_total)
next
  assume x: "excludeUntil p = Some (Num (T + blacklistDuration))"
  then show k: "notExcluded now p \<longleftrightarrow> now \<ge> T + 5 * 60 * 1000"
    by (simp add: notExcluded_def blacklistDuration_def)
  show "selectPlaylistOn (\<lambda>x. x) [p] estimate now width height =
          (if now \<ge> T + 5 * 60 * 1000 then Inr (Some p) else Inr None)"
  proof (cases "now \<ge> T + 5 * 60 * 1000")
    case True
    with k have "notExcluded now p" by simp
    from selectPlaylistOn_nonempty[of p "[p]" now "\<lambda>x. x" estimate width height] this
    obtain r where r: "selectPlaylistOn (\<lambda>x. x) [p] estimate now width height = Inr (Some r)"
      by auto
    from selectPlaylistOn_member[OF r] have "r = p" by simp
    with r True show ?thesis by simp
  next
    case False
    with k have n: "\<not> notExcluded now p" by simp
    obtain r where r: "selectPlaylistOn (\<lambda>x. x) [p] estimate now width height = Inr r"
      using selectPlaylistOn_total by blast
    have "r = None"
    proof (cases r)
      case None
      then show ?thesis .
    next
      case (Some u)
      with r selectPlaylistOn_member[of "\<lambda>x. x" "[p]" estimate now width height u] n
      show ?thesis by auto
    qed
    with r False show ?thesis by simp
  qed
next
  assume "selectPlaylist env h = Inr (Some r, h')"
  then show "\<not> excludedInFuture (clock env (clockReads h)) (plHeap h r)"
    using selectPlaylistOn_member[of "plHeap h" _ "bandwidth h" "clock env (clockReads h)"
        "t_width (tech h)" "t_height (tech h)" r]
    by (auto simp: selectPlaylist_def Let_def notExcluded_iff split: option.splits sum.splits)
qed

lemma exHandler_select:
  "selectPlaylist exEnv (exHandler [exSegment (Some 10) None] []) =
     Inr (Some 1, (exHandler [exSegment (Some 10) None] [])\<lparr>clockReads := 1\<rparr>)"
  by (simp add: selectPlaylist_def selectPlaylistOn_def exHandler_def
      exEnv_def exMedia_def comparePlaylistBandwidth_def comparePlaylistResolution_def
      declaredBandwidth_def declaredWidth_def declaredResolution_def orMaxValue_def
      notExcluded_def blacklistDuration_def timesDouble_500000 timesDouble_2000000
      lessDouble_def orElse_def Let_def)

theorem selectPlaylist_never_returns_excluded_witness:
  "selectPlaylistOn (\<lambda>x. x)
     [exVariant ''lo.m3u8'' (Some 500000) (Some (Num (1000 + blacklistDuration)))]
     1000000 301000 None None
     = Inr (Some (exVariant ''lo.m3u8'' (Some 500000) (Some (Num (1000 + blacklistDuration)))))
   \<and> selectPlaylistOn (\<lambda>x. x)
     [exVariant ''lo.m3u8'' (Some 500000) (Some (Num (1000 + blacklistDuration)))]
     1000000 300999 None None = Inr None
   \<and> \<not> excludedInFuture 301000
        (exVariant ''lo.m3u8'' (Some 500000) (Some (Num (1000 + blacklistDuration))))
   \<and> \<not> excludedInFuture 1000 (exMedia 2000000 [exSegment (Some 10) None])"
  using selectPlaylist_never_returns_excluded
    [of "\<lambda>x. x" "[exVariant ''lo.m3u8'' (Some 500000) (Some (Num (1000 + blacklistDuration)))]"
        1000000 301000 None None
        "exVariant ''lo.m3u8'' (Some 500000) (Some (Num (1000 + blacklistDuration)))"
        "exVariant ''lo.m3u8'' (Some 500000) (Some (Num (1000 + blacklistDuration)))" 1000
        exEnv "exHandler [exSegment (Some 10) None] []" 1
        "(exHandler [exSegment (Some 10) None] [])\<lparr>clockReads := 1\<rparr>"]
    selectPlaylist_never_returns_excluded
    [of "\<lambda>x. x" "[]" 1000000 300999 None None
        "exVariant ''lo.m3u8'' (Some 500000) (Some (Num (1000 + blacklistDuration)))"
        "exVariant ''lo.m3u8'' (Some 500000) (Some (Num (1000 + blacklistDuration)))" 1000]
    exHandler_select
  by (simp add: exVariant_def exHandler_def exEnv_def)

text \<open>
  Claim C4 as stated fails: a playlist that declares the bandwidth 0 has
  \<^verbatim>\<open>0 * 1.2 < 1\<close>, and the loop still skips it. And of the two playlists of 500000 and
  2000000 the second is returned, at the estimate 1000000, when the first is excluded.
\<close>

theorem selectPlaylist_zero_bandwidth_counterexample:
  "BANDWIDTH \<lparr>BANDWIDTH = Some 0, RESOLUTION = None, CODECS = None\<rparr> = Some 0
   \<and> lessDouble (timesDouble 0 bandwidthVariance) 1
   \<and> exVariant ''zero.m3u8'' (Some 0) None \<notin>
       set (bandwidthEligible id 1 [exVariant ''zero.m3u8'' (Some 0) None])
   \<and> selectPlaylistOn (\<lambda>x. x)
        [exVariant ''lo.m3u8'' (Some 500000) (Some Infinity),
         exVariant ''hi.m3u8'' (Some 2000000) None]
        1000000 0 None None = Inr (Some (exVariant ''hi.m3u8'' (Some 2000000) None))"
proof (intro conjI)
  let ?lo = "exVariant ''lo.m3u8'' (Some 500000) (Some Infinity)"
  let ?hi = "exVariant ''hi.m3u8'' (Some 2000000) None"
  have hi: "notExcluded 0 ?hi" and lo: "\<not> notExcluded 0 ?lo"
    by (simp_all add: notExcluded_def exVariant_def)
  from selectPlaylistOn_nonempty[of ?hi "[?lo, ?hi]" 0 "\<lambda>x. x" 1000000 None None] hi
  obtain r where r: "selectPlaylistOn (\<lambda>x. x) [?lo, ?hi] 1000000 0 None None = Inr (Some r)"
    by auto
  from selectPlaylistOn_member[OF r] lo have "r = ?hi" by auto
  with r show "selectPlaylistOn (\<lambda>x. x) [?lo, ?hi] 1000000 0 None None = Inr (Some ?hi)"
    by simp
qed (simp_all add: bandwidthEligible_def exVariant_def declaredBandwidth_def timesDouble_def
    roundToDouble_def lessDouble_def)

text \<open>
  Claim C4, amended. A playlist with a declared bandwidth other than 0 is pushed by the
  bandwidth loop exactly when its bandwidth times 1.2, the product of the two doubles as the
  program computes it, is strictly below the estimate; one with no bandwidth (or 0) never
  is. On the sorted list the loop's best variant is a pushed
  playlist of the highest bandwidth, and there is none exactly when nothing was pushed.
  The list the loop runs on is sorted so. With two playlists of 500000 and 2000000, neither
  excluded, and an estimate of 1000000, \<^verbatim>\<open>selectPlaylist\<close> returns the 500000 one, in either
  order of the master list and for every player size.
\<close>

theorem selectPlaylist_bandwidth_filter:
  "(pl_attributes (get v) = Some a \<and> BANDWIDTH a = Some b \<and> b \<noteq> 0 \<longrightarrow>
      (v \<in> set (bandwidthEligible get estimate sortedPlaylists) \<longleftrightarrow>
         v \<in> set sortedPlaylists \<and>
         lessDouble (roundToDouble (b * bandwidthVariance)) estimate))
   \<and> (declaredBandwidth (get v) = None \<longrightarrow>
        v \<notin> set (bandwidthEligible get estimate sortedPlaylists))
   \<and> (ascendingBandwidth get sortedPlaylists \<longrightarrow>
        (case bandwidthCandidate get estimate sortedPlaylists of
           None \<Rightarrow> bandwidthEligible get estimate sortedPlaylists = []
         | Some c \<Rightarrow>
             c \<in> set (bandwidthEligible get estimate sortedPlaylists) \<and>
             (\<exists>bc. declaredBandwidth (get c) = Some bc \<and>
               (\<forall>w \<in> set (bandwidthEligible get estimate sortedPlaylists).
                  \<exists>bw. declaredBandwidth (get w) = Some bw \<and> bw \<le> bc))))
   \<and> (\<exists>s. sortBy (\<lambda>a b. Inr (comparePlaylistBandwidth (get a) (get b))) master = Inr s \<and>
          set s = set master \<and>
          ascendingBandwidth get (filter (\<lambda>localVariant. notExcluded now (get localVariant)) s))
   \<and> (declaredBandwidth lo = Some 500000 \<and> declaredBandwidth hi = Some 2000000 \<and>
        notExcluded now lo \<and> notExcluded now hi \<longrightarrow>
        selectPlaylistOn (\<lambda>x. x) [lo, hi] 1000000 now width height = Inr (Some lo) \<and>
        selectPlaylistOn (\<lambda>x. x) [hi, lo] 1000000 now width height = Inr (Some lo))"
proof (intro conjI)
  show "pl_attributes (get v) = Some a \<and> BANDWIDTH a = Some b \<and> b \<noteq> 0 \<longrightarrow>
      (v \<in> set (bandwidthEligible get estimate sortedPlaylists) \<longleftrightarrow>
         v \<in> set sortedPlaylists \<and>
         lessDouble (roundToDouble (b * bandwidthVariance)) estimate)"
    by (auto simp: bandwidthEligible_filter passesVariance_def declaredBandwidth_def
        timesDouble_def)
next
  show "declaredBandwidth (get v) = None \<longrightarrow>
        v \<notin> set (bandwidthEligible get estimate sortedPlaylists)"
    by (simp add: bandwidthEligible_filter passesVariance_def)
next
  let ?e = "bandwidthEligible get estimate sortedPlaylists"
  show "ascendingBandwidth get sortedPlaylists \<longrightarrow>
        (case bandwidthCandidate get estimate sortedPlaylists of
           None \<Rightarrow> ?e = []
         | Some c \<Rightarrow> c \<in> set ?e \<and>
             (\<exists>bc. declaredBandwidth (get c) = Some bc \<and>
               (\<forall>w \<in> set ?e. \<exists>bw. declaredBandwidth (get w) = Some bw \<and> bw \<le> bc)))"
  proof
    assume asc: "ascendingBandwidth get sortedPlaylists"
    show "case bandwidthCandidate get estimate sortedPlaylists of
           None \<Rightarrow> ?e = []
         | Some c \<Rightarrow> c \<in> set ?e \<and>
             (\<exists>bc. declaredBandwidth (get c) = Some bc \<and>
               (\<forall>w \<in> set ?e. \<exists>bw. declaredBandwidth (get w) = Some bw \<and> bw \<le> bc))"
    proof (cases ?e)
      case Nil
      then show ?thesis by (simp add: bandwidthCandidate_hd)
    next
      case (Cons c rest)
      then have cand: "bandwidthCandidate get estimate sortedPlaylists = Some c"
        by (simp add: bandwidthCandidate_hd)
      from Cons have f: "filter (passesVariance get estimate) (rev sortedPlaylists) = c # rest"
        by (simp add: bandwidthEligible_filter)
      from asc have "sorted (map (\<lambda>v. orMaxValue (declaredBandwidth (get v))) sortedPlaylists)"
        by (simp add: ascendingBandwidth_def)
      from first_of_descending[OF this f]
      have top: "\<forall>w \<in> set sortedPlaylists. passesVariance get estimate w \<longrightarrow>
          orMaxValue (declaredBandwidth (get w)) \<le> orMaxValue (declaredBandwidth (get c))" .
      have pass: "\<And>w. passesVariance get estimate w \<Longrightarrow>
          \<exists>bw. declaredBandwidth (get w) = Some bw \<and> orMaxValue (declaredBandwidth (get w)) = bw"
        by (auto simp: passesVariance_def declaredBandwidth_def orMaxValue_def
            split: option.splits if_splits)
      have c_in: "c \<in> set ?e" using Cons by simp
      then have "passesVariance get estimate c" by (simp add: bandwidthEligible_filter)
      from pass[OF this] obtain bc where bc: "declaredBandwidth (get c) = Some bc"
        "orMaxValue (declaredBandwidth (get c)) = bc" by blast
      have "\<forall>w \<in> set ?e. \<exists>bw. declaredBandwidth (get w) = Some bw \<and> bw \<le> bc"
      proof
        fix w assume "w \<in> set ?e"
        then have w: "w \<in> set sortedPlaylists" "passesVariance get estimate w"
          by (simp_all add: bandwidthEligible_filter)
        from pass[OF w(2)] obtain bw where bw: "declaredBandwidth (get w) = Some bw"
          "orMaxValue (declaredBandwidth (get w)) = bw" by blast
        from top w have "orMaxValue (declaredBandwidth (get w)) \<le> bc" using bc(2) by auto
        with bw show "\<exists>bw. declaredBandwidth (get w) = Some bw \<and> bw \<le> bc" by simp
      qed
      with cand c_in bc(1) show ?thesis by simp
    qed
  qed
next
  obtain s where s: "sortBy (\<lambda>a b. Inr (comparePlaylistBandwidth (get a) (get b))) master = Inr s"
    "set s = set master" "ascendingBandwidth get s"
    using sortBy_bandwidth[of get master] by blast
  from s(3) have "ascendingBandwidth get (filter (\<lambda>localVariant. notExcluded now (get localVariant)) s)"
    unfolding ascendingBandwidth_def by (simp add: filter_map[symmetric] o_def sorted_filter)
  with s show "\<exists>s. sortBy (\<lambda>a b. Inr (comparePlaylistBandwidth (get a) (get b))) master = Inr s \<and>
          set s = set master \<and>
          ascendingBandwidth get (filter (\<lambda>localVariant. notExcluded now (get localVariant)) s)"
    by blast
next
  show "declaredBandwidth lo = Some 500000 \<and> declaredBandwidth hi = Some 2000000 \<and>
        notExcluded now lo \<and> notExcluded now hi \<longrightarrow>
        selectPlaylistOn (\<lambda>x. x) [lo, hi] 1000000 now width height = Inr (Some lo) \<and>
        selectPlaylistOn (\<lambda>x. x) [hi, lo] 1000000 now width height = Inr (Some lo)"
  proof (intro impI)
    assume h: "declaredBandwidth lo = Some 500000 \<and> declaredBandwidth hi = Some 2000000 \<and>
        notExcluded now lo \<and> notExcluded now hi"
    have plo: "passesVariance (\<lambda>x. x) 1000000 lo" and phi: "\<not> passesVariance (\<lambda>x. x) 1000000 hi"
      using h by (simp_all add: passesVariance_def timesDouble_500000 timesDouble_2000000
          lessDouble_def)
    have one: "selectPlaylistOn (\<lambda>x. x) ps 1000000 now width height = Inr (Some lo)"
      if ps: "set ps = {lo, hi}" for ps
    proof -
      from ps h selectPlaylistOn_nonempty[of lo ps now "\<lambda>x. x" 1000000 width height]
      obtain r where r: "selectPlaylistOn (\<lambda>x. x) ps 1000000 now width height = Inr (Some r)"
        by auto
      from selectPlaylistOn_member[OF r] ps have "r = lo \<or> r = hi" by auto
      moreover from selectPlaylistOn_eligible[OF r, of lo] ps h plo
      have "passesVariance (\<lambda>x. x) 1000000 r" by simp
      ultimately have "r = lo" using phi by auto
      with r show ?thesis by simp
    qed
    show "selectPlaylistOn (\<lambda>x. x) [lo, hi] 1000000 now width height = Inr (Some lo) \<and>
        selectPlaylistOn (\<lambda>x. x) [hi, lo] 1000000 now width height = Inr (Some lo)"
      by (intro conjI one) auto
  qed
qed

theorem selectPlaylist_bandwidth_filter_witness:
  "selectPlaylistOn (\<lambda>x. x)
     [exVariant ''lo.m3u8'' (Some 500000) None, exVariant ''hi.m3u8'' (Some 2000000) None]
     1000000 0 None None = Inr (Some (exVariant ''lo.m3u8'' (Some 500000) None))
   \<and> exVariant ''lo.m3u8'' (Some 500000) None \<in>
       set (bandwidthEligible (\<lambda>x. x) 1000000
         [exVariant ''lo.m3u8'' (Some 500000) None, exVariant ''hi.m3u8'' (Some 2000000) None])
   \<and> ascendingBandwidth (\<lambda>x. x)
         [exVariant ''lo.m3u8'' (Some 500000) None, exVariant ''hi.m3u8'' (Some 2000000) None]
   \<and> bandwidthCandidate (\<lambda>x. x) 1000000
         [exVariant ''lo.m3u8'' (Some 500000) None, exVariant ''hi.m3u8'' (Some 2000000) None]
       = Some (exVariant ''lo.m3u8'' (Some 500000) None)
   \<and> exVariant ''big.m3u8'' (Some 4503599627370499) None \<notin>
       set (bandwidthEligible (\<lambda>x. x) 5404319552844599
         [exVariant ''big.m3u8'' (Some 4503599627370499) None])"
  using selectPlaylist_bandwidth_filter
    [of "\<lambda>x. x" "exVariant ''lo.m3u8'' (Some 500000) None"
        "\<lparr>BANDWIDTH = Some 500000, RESOLUTION = None, CODECS = None\<rparr>" 500000 1000000
        "[exVariant ''lo.m3u8'' (Some 500000) None, exVariant ''hi.m3u8'' (Some 2000000) None]"
        "[]" 0 "exVariant ''lo.m3u8'' (Some 500000) None"
        "exVariant ''hi.m3u8'' (Some 2000000) None" None None]
    selectPlaylist_bandwidth_filter
    [of "\<lambda>x. x" "exVariant ''big.m3u8'' (Some 4503599627370499) None"
        "\<lparr>BANDWIDTH = Some 4503599627370499, RESOLUTION = None, CODECS = None\<rparr>"
        4503599627370499 5404319552844599
        "[exVariant ''big.m3u8'' (Some 4503599627370499) None]"
        "[]" 0 "exVariant ''lo.m3u8'' (Some 500000) None"
        "exVariant ''hi.m3u8'' (Some 2000000) None" None None]
    timesDouble_500000 timesDouble_2000000 timesDouble_rounds
  by (simp add: exVariant_def declaredBandwidth_def notExcluded_def timesDouble_def
      lessDouble_def ascendingBandwidth_def orMaxValue_def bandwidthCandidate_def)

section \<open>Properties of \<^verbatim>\<open>fillBuffer\<close>\<close>


lemma playlistUriToUrl_total:
  "playlists h = Some ld \<Longrightarrow> ld_media ld = Some m \<Longrightarrow>
     \<exists>url. playlistUriToUrl env h rel = Inr url"
  by (simp add: playlistUriToUrl_def)



lemma fillShape_same: "fillShape env h (Inr h)"
  by (simp add: fillShape_def)




lemma fillBuffer_shape: "fillShape env h (fillBuffer env h mediaIndex)"
proof (induction env h mediaIndex rule: fillBuffer.induct)
  case (1 env h mediaIndex)
  show ?case
  proof (cases "loadingState h = LoadSegments \<and> t_currentSrc (tech h) \<noteq> [] \<and>
      segmentXhr h = None \<and> pendingSegment h = None")
    case False
    then have "fillBuffer env h mediaIndex = Inr h"
      by (subst fillBuffer.simps) (auto split: option.splits)
    then show ?thesis by (simp add: fillShape_same)
  next
    case g: True
    show ?thesis
    proof (cases "playlists h")
      case None
      then have "fillBuffer env h mediaIndex = Inr h"
        by (subst fillBuffer.simps) simp
      then show ?thesis by (simp add: fillShape_same)
    next
      case ld: (Some ld)
      show ?thesis
      proof (cases "ld_state ld \<noteq> ''HAVE_NOTHING'' \<and> ld_state ld \<noteq> ''SWITCHING_MEDIA'' \<and>
          (\<exists>m segs. ld_media ld = Some m \<and> segments (plHeap h m) = Some segs)")
        case False
        with ld have "fillBuffer env h mediaIndex = Inr h"
          by (subst fillBuffer.simps) (auto split: option.splits)
        then show ?thesis by (simp add: fillShape_same)
      next
        case True
        then obtain m segs where m: "ld_media ld = Some m" and segs: "segments (plHeap h m) = Some segs"
          and st: "ld_state ld \<noteq> ''HAVE_NOTHING''" "ld_state ld \<noteq> ''SWITCHING_MEDIA''"
          by blast
        have eq: "fillBuffer env h mediaIndex =
          (case resolveMediaIndex env h ld mediaIndex of
             None \<Rightarrow> Inr h
           | Some (None, currentBufferedEnd) \<Rightarrow> Inr h
           | Some (Some i, currentBufferedEnd) \<Rightarrow>
               (case segmentAt segs i of
                  None \<Rightarrow> Inr h
                | Some seg \<Rightarrow>
                    (case playlistUriToUrl env h (seg_uri seg) of
                       Inl err \<Rightarrow> Inl err
                     | Inr uri \<Rightarrow>
                         if sameAsLastSegmentLoaded env h seg uri
                         then fillBuffer env h (Some (i + 1))
                         else
                           loadSegment env (h\<lparr>nextRef := Suc (nextRef h)\<rparr>)
                             (newSegmentInfo env h ld m i seg uri currentBufferedEnd))))"
          by (subst fillBuffer.simps) (simp add: g ld m segs st)
        show ?thesis
        proof (cases "resolveMediaIndex env h ld mediaIndex")
          case None
          with eq show ?thesis by (simp add: fillShape_same)
        next
          case (Some p)
          obtain idx e where p: "p = (idx, e)" by (cases p)
          show ?thesis
          proof (cases idx)
            case None
            with eq Some p show ?thesis by (simp add: fillShape_same)
          next
            case i: (Some i)
            show ?thesis
            proof (cases "segmentAt segs i")
              case None
              with eq Some p i show ?thesis by (simp add: fillShape_same)
            next
              case seg: (Some seg)
              obtain uri where uri: "playlistUriToUrl env h (seg_uri seg) = Inr uri"
                using playlistUriToUrl_total[OF ld m] by blast
              show ?thesis
              proof (cases "sameAsLastSegmentLoaded env h seg uri")
                case True
                have "fillShape env h (fillBuffer env h (Some (i + 1)))"
                  using g st by (intro "1.IH"[OF _ _ ld _ _ _ m segs _ Some _ i seg uri True])
                    (simp_all add: p)
                with eq Some p i seg uri True show ?thesis by simp
              next
                case False
                have "fillShape env h (loadSegment env (h\<lparr>nextRef := Suc (nextRef h)\<rparr>)
                             (newSegmentInfo env h ld m i seg uri e))"
                  unfolding fillShape_def using g ld m segs seg uri by blast
                with eq Some p i seg uri False show ?thesis by simp
              qed
            qed
          qed
        qed
      qed
    qed
  qed
qed












section \<open>Properties of \<^verbatim>\<open>setCurrentTime\<close>\<close>

lemma cancel_both:
  "(case keyXhr (cancelSegmentXhr (h\<lparr>lastSegmentLoaded := None\<rparr>)) of
      None \<Rightarrow> cancelSegmentXhr (h\<lparr>lastSegmentLoaded := None\<rparr>)
    | Some r \<Rightarrow>
        cancelKeyXhr
          ((cancelSegmentXhr (h\<lparr>lastSegmentLoaded := None\<rparr>))
             \<lparr>markedAborted := r # markedAborted (cancelSegmentXhr (h\<lparr>lastSegmentLoaded := None\<rparr>)),
              effects := effects (cancelSegmentXhr (h\<lparr>lastSegmentLoaded := None\<rparr>)) @
                [XhrMarkAborted r]\<rparr>)) = cancelled h"
  by (cases "segmentXhr h"; cases "keyXhr h")
     (simp_all add: cancelSegmentXhr_def cancelKeyXhr_def cancelled_def)






section \<open>Properties of \<^verbatim>\<open>blacklistCurrentPlaylist_\<close>\<close>

text \<open>
  Claim C6. With a loader and a media source: when neither the error nor the loader names a
  playlist, the error is recorded and \<^verbatim>\<open>endOfStream('network')\<close> is called. When one is
  named (the error's first), its \<^verbatim>\<open>excludeUntil\<close> becomes the clock reading plus 300000 and
  \<^verbatim>\<open>selectPlaylist\<close> runs on the master list: the playlist it returns is passed to the
  loader's \<^verbatim>\<open>media\<close>; when it returns none, the error is recorded and
  \<^verbatim>\<open>endOfStream('network')\<close> is called. Unless five minutes pass between the two readings of
  the clock, the playlist returned is not the one just excluded.
\<close>

theorem blacklistCurrentPlaylist_excludes_and_reselects:
  "(playlists h = Some ld \<and> mediaSource h = Some ms \<and>
    orElse (err_playlist err) (ld_media ld) = None \<longrightarrow>
      blacklistCurrentPlaylist env h err =
        Inr (h\<lparr>hls_error := Some err,
               effects := effects h @ [EndOfStream (Some ''network'')]\<rparr>))
   \<and> (playlists h = Some ld \<and> ld_master ld = Some master \<and> mediaSource h = Some ms \<and>
       orElse (err_playlist err) (ld_media ld) = Some p \<longrightarrow>
        excludeUntil (excludedHeap env h p p) =
          Some (Num (clock env (clockReads h) + 5 * 60 * 1000)) \<and>
        (\<exists>selected. selectionAfterExcluding env h p master = Inr selected \<and>
           blacklistCurrentPlaylist env h err =
             Inr (case selected of
                    Some nextPlaylist \<Rightarrow> afterSwitch env h ld p nextPlaylist
                  | None \<Rightarrow> afterFailure env h p err) \<and>
           (clock env (Suc (clockReads h)) < clock env (clockReads h) + 5 * 60 * 1000 \<longrightarrow>
              selected \<noteq> Some p)))"
proof (intro conjI impI)
  assume a: "playlists h = Some ld \<and> mediaSource h = Some ms \<and>
    orElse (err_playlist err) (ld_media ld) = None"
  then show "blacklistCurrentPlaylist env h err =
        Inr (h\<lparr>hls_error := Some err,
               effects := effects h @ [EndOfStream (Some ''network'')]\<rparr>)"
    by (auto simp: blacklistCurrentPlaylist_def endOfStream_def orElse_def split: option.splits)
next
  assume a: "playlists h = Some ld \<and> ld_master ld = Some master \<and> mediaSource h = Some ms \<and>
       orElse (err_playlist err) (ld_media ld) = Some p"
  show "excludeUntil (excludedHeap env h p p) =
          Some (Num (clock env (clockReads h) + 5 * 60 * 1000))"
    by (simp add: excludedHeap_def blacklistDuration_def)
  obtain selected where sel: "selectionAfterExcluding env h p master = Inr selected"
    unfolding selectionAfterExcluding_def using selectPlaylistOn_total by blast
  define h1 where "h1 = h\<lparr>clockReads := Suc (clockReads h), plHeap := excludedHeap env h p\<rparr>"
  have cur: "(case err_playlist err of
              Some r \<Rightarrow> Inr (Some r)
            | None \<Rightarrow> (case playlists h of
                         None \<Rightarrow> Inl TypeError
                       | Some ld \<Rightarrow> Inr (ld_media ld))) = Inr (Some p)"
    using a by (auto simp: orElse_def split: option.splits)
  have s1: "selectPlaylist env h1 = Inr (selected, h1\<lparr>clockReads := Suc (Suc (clockReads h))\<rparr>)"
    using a sel by (simp add: selectPlaylist_def h1_def selectionAfterExcluding_def Let_def)
  have b: "blacklistCurrentPlaylist env h err =
             Inr (case selected of
                    Some nextPlaylist \<Rightarrow> afterSwitch env h ld p nextPlaylist
                  | None \<Rightarrow> afterFailure env h p err)"
    unfolding blacklistCurrentPlaylist_def cur Let_def excludedHeap_def[symmetric]
      h1_def[symmetric]
    using a by (cases selected)
      (simp_all add: s1[unfolded h1_def] h1_def mediaCall_def endOfStream_def afterSwitch_def
        afterFailure_def)
  have c: "selected \<noteq> Some p"
    if "clock env (Suc (clockReads h)) < clock env (clockReads h) + 5 * 60 * 1000"
  proof
    assume "selected = Some p"
    with sel have "selectPlaylistOn (excludedHeap env h p) master (bandwidth h)
       (clock env (Suc (clockReads h))) (t_width (tech h)) (t_height (tech h)) = Inr (Some p)"
      by (simp add: selectionAfterExcluding_def)
    from selectPlaylistOn_member[OF this]
    have "notExcluded (clock env (Suc (clockReads h))) (excludedHeap env h p p)" by simp
    with that show False by (simp add: notExcluded_def excludedHeap_def blacklistDuration_def)
  qed
  from sel b c show "\<exists>selected. selectionAfterExcluding env h p master = Inr selected \<and>
           blacklistCurrentPlaylist env h err =
             Inr (case selected of
                    Some nextPlaylist \<Rightarrow> afterSwitch env h ld p nextPlaylist
                  | None \<Rightarrow> afterFailure env h p err) \<and>
           (clock env (Suc (clockReads h)) < clock env (clockReads h) + 5 * 60 * 1000 \<longrightarrow>
              selected \<noteq> Some p)"
    by blast
qed

lemma exHandler_selection:
  "selectionAfterExcluding exEnv (exHandler [exSegment (Some 10) None] []) 0 [0, 1] = Inr (Some 1)"
  by (simp add: selectionAfterExcluding_def selectPlaylistOn_def excludedHeap_def exHandler_def
      exEnv_def exMedia_def comparePlaylistBandwidth_def comparePlaylistResolution_def
      declaredBandwidth_def declaredWidth_def declaredResolution_def orMaxValue_def
      notExcluded_def blacklistDuration_def timesDouble_500000 timesDouble_2000000
      lessDouble_def orElse_def Let_def)

theorem blacklistCurrentPlaylist_excludes_and_reselects_witness:
  "blacklistCurrentPlaylist exEnv (exHandler [exSegment (Some 10) None] []) exError =
     Inr (afterSwitch exEnv (exHandler [exSegment (Some 10) None] [])
            \<lparr>ld_state = ''HAVE_METADATA'', ld_media = Some 0, ld_master = Some [0, 1],
             expired = 0\<rparr> 0 1)
   \<and> excludeUntil (excludedHeap exEnv (exHandler [exSegment (Some 10) None] []) 0 0) =
       Some (Num 301000)
   \<and> blacklistCurrentPlaylist exEnv
       ((exHandler [exSegment (Some 10) None] [])
          \<lparr>playlists := Some \<lparr>ld_state = ''HAVE_NOTHING'', ld_media = None, ld_master = None,
                               expired = 0\<rparr>\<rparr>) exError =
     Inr ((exHandler [exSegment (Some 10) None] [])
            \<lparr>playlists := Some \<lparr>ld_state = ''HAVE_NOTHING'', ld_media = None, ld_master = None,
                                 expired = 0\<rparr>,
             hls_error := Some exError,
             effects := [EndOfStream (Some ''network'')]\<rparr>)"
  using blacklistCurrentPlaylist_excludes_and_reselects
    [where h = "exHandler [exSegment (Some 10) None] []"
       and ld = "\<lparr>ld_state = ''HAVE_METADATA'', ld_media = Some 0, ld_master = Some [0, 1],
                 expired = 0\<rparr>"
       and ms = "\<lparr>ms_readyState = ''open'', ms_duration = 20, ms_sourceBuffers = Some 1\<rparr>"
       and err = exError and master = "[0, 1]" and p = 0 and env = exEnv]
    blacklistCurrentPlaylist_excludes_and_reselects
    [where h = "(exHandler [exSegment (Some 10) None] [])
          \<lparr>playlists := Some \<lparr>ld_state = ''HAVE_NOTHING'', ld_media = None, ld_master = None,
                               expired = 0\<rparr>\<rparr>"
       and ld = "\<lparr>ld_state = ''HAVE_NOTHING'', ld_media = None, ld_master = None, expired = 0\<rparr>"
       and ms = "\<lparr>ms_readyState = ''open'', ms_duration = 20, ms_sourceBuffers = Some 1\<rparr>"
       and err = exError and master = "[]" and p = 0 and env = exEnv]
    exHandler_selection
  by (simp add: exHandler_def exError_def orElse_def exEnv_def)

section \<open>Properties of \<^verbatim>\<open>fetchKey_\<close> and its callback\<close>

lemma keyQuiet_refl: "keyQuiet h h"
  by (simp add: keyQuiet_def)

lemma keyQuiet_trans: "keyQuiet h h1 \<Longrightarrow> keyQuiet h1 h2 \<Longrightarrow> keyQuiet h h2"
  by (simp add: keyQuiet_def)

lemma keyQuiet_stable: "keyQuiet h h' \<Longrightarrow> keyStable k h h'"
  by (simp add: keyQuiet_def keyStable_def)

lemma keyStable_trans: "keyStable k h h1 \<Longrightarrow> keyStable k h1 h2 \<Longrightarrow> keyStable k h h2"
  by (simp add: keyStable_def)

text \<open>An update that leaves the key store alone and logs no key request is quiet.\<close>

lemma keyQuiet_update:
  "keyHeap h' = keyHeap h \<Longrightarrow> effects h' = effects h @ es \<Longrightarrow>
     \<forall>e \<in> set es. \<forall>k. \<not> isKeyRequestFor k e \<Longrightarrow> keyQuiet h h'"
  by (simp add: keyQuiet_def keyRequestsFor_def)

lemma fetchKey_keyQuiet: "fetchKey env h seg = Inr h' \<Longrightarrow> keyQuiet h h'"
proof -
  assume a: "fetchKey env h seg = Inr h'"
  show ?thesis
  proof (cases "h' = h")
    case True
    then show ?thesis by (simp add: keyQuiet_refl)
  next
    case False
    with a obtain k url where k: "seg_key seg = Some k" "\<not> keyFailed (keyHeap h k)"
      "h' = h\<lparr>keyXhr := Some (nextRef h), nextRef := Suc (nextRef h),
              keyClosures := (keyClosures h)(nextRef h \<mapsto> (k, seg)),
              effects := effects h @ [XhrKey (nextRef h) k url (options_withCredentials h)]\<rparr>"
      by (auto simp: fetchKey_def split: option.splits if_splits sum.splits)
    then show ?thesis by (auto simp: keyQuiet_def keyRequestsFor_def)
  qed
qed

lemma loadSegment_keyQuiet: "loadSegment env h segmentInfo = Inr h' \<Longrightarrow> keyQuiet h h'"
proof -
  assume a: "loadSegment env h segmentInfo = Inr h'"
  then obtain segs seg where s: "segments (plHeap h (si_playlist segmentInfo)) = Some segs"
    "segmentAt segs (si_mediaIndex segmentInfo) = Some seg"
    by (auto simp: loadSegment_def split: option.splits)
  define removeToTime where "removeToTime =
     (case seekable env h of
        [] \<Rightarrow> t_currentTime (tech h) - 60
      | (start, e) # rest \<Rightarrow>
          if start > 0 \<and> start < t_currentTime (tech h) then start
          else t_currentTime (tech h) - 60)"
  define h1 where "h1 =
     (case sourceBuffer h of
        None \<Rightarrow> h
      | Some sb \<Rightarrow>
          if \<not> sb_updating sb \<and> removeToTime > 0 then
            h\<lparr>effects := effects h @ [SourceBufferRemove 0 removeToTime]\<rparr>
          else h)"
  have q1: "keyQuiet h h1"
    by (auto simp: h1_def keyQuiet_def keyRequestsFor_def split: option.splits)
  from a have a': "(case (if seg_key seg \<noteq> None then fetchKey env h1 seg else Inr h1) of
       Inl e \<Rightarrow> Inl e
     | Inr h2 \<Rightarrow>
         Inr (h2\<lparr>segmentXhr := Some (nextRef h2),
                 nextRef := Suc (nextRef h2),
                 segmentClosures := (segmentClosures h2)(nextRef h2 \<mapsto> (segmentInfo, seg)),
                 effects := effects h2 @
                   [XhrSegment (nextRef h2) (si_uri segmentInfo)
                      (map_option (\<lambda>d. scaleDouble (scaleDouble d 1.5) 1000) (seg_duration seg))
                      (segmentXhrHeaders seg)
                      (source_withCredentials h2)]\<rparr>)) = Inr h'"
    unfolding loadSegment_def s option.case Let_def removeToTime_def[symmetric]
      h1_def[symmetric] .
  then obtain h2 where h2: "(if seg_key seg \<noteq> None then fetchKey env h1 seg else Inr h1) = Inr h2"
    and h': "h' = h2\<lparr>segmentXhr := Some (nextRef h2),
                 nextRef := Suc (nextRef h2),
                 segmentClosures := (segmentClosures h2)(nextRef h2 \<mapsto> (segmentInfo, seg)),
                 effects := effects h2 @
                   [XhrSegment (nextRef h2) (si_uri segmentInfo)
                      (map_option (\<lambda>d. scaleDouble (scaleDouble d 1.5) 1000) (seg_duration seg))
                      (segmentXhrHeaders seg)
                      (source_withCredentials h2)]\<rparr>"
    by (auto split: sum.splits)
  from h2 have q2: "keyQuiet h1 h2"
    by (auto simp: keyQuiet_refl dest: fetchKey_keyQuiet split: if_splits)
  from h' have q3: "keyQuiet h2 h'" by (simp add: keyQuiet_def keyRequestsFor_def)
  from q1 q2 q3 show ?thesis by (blast intro: keyQuiet_trans)
qed

lemma fillBuffer_keyQuiet: "fillBuffer env h mediaIndex = Inr h' \<Longrightarrow> keyQuiet h h'"
proof -
  assume a: "fillBuffer env h mediaIndex = Inr h'"
  have "fillShape env h (fillBuffer env h mediaIndex)" by (rule fillBuffer_shape)
  then show ?thesis
    unfolding fillShape_def
  proof (elim disjE exE conjE)
    assume "fillBuffer env h mediaIndex = Inr h"
    with a show ?thesis by (simp add: keyQuiet_refl)
  next
    fix ld m segs i seg uri e
    assume "fillBuffer env h mediaIndex = loadSegment env (h\<lparr>nextRef := Suc (nextRef h)\<rparr>)
                 (newSegmentInfo env h ld m i seg uri e)"
    with a have "keyQuiet (h\<lparr>nextRef := Suc (nextRef h)\<rparr>) h'"
      by (simp add: loadSegment_keyQuiet)
    then show ?thesis by (simp add: keyQuiet_def keyRequestsFor_def)
  qed
qed

lemma selectPlaylist_keyQuiet: "selectPlaylist env h = Inr (r, h') \<Longrightarrow> keyQuiet h h'"
  by (auto simp: selectPlaylist_def keyQuiet_def keyRequestsFor_def Let_def
      split: option.splits sum.splits)

lemma mediaCall_keyQuiet: "mediaCall env h p = Inr h' \<Longrightarrow> keyQuiet h h'"
  by (auto simp: mediaCall_def keyQuiet_def keyRequestsFor_def split: option.splits)

lemma endOfStream_keyQuiet: "endOfStream h reason = Inr h' \<Longrightarrow> keyQuiet h h'"
  by (auto simp: endOfStream_def keyQuiet_def keyRequestsFor_def split: option.splits)

lemma blacklistCurrentPlaylist_keyQuiet:
  assumes "blacklistCurrentPlaylist env h err = Inr h'"
  shows "keyQuiet h h'"
proof -
  define current where "current =
     (case err_playlist err of
        Some r \<Rightarrow> Inr (Some r)
      | None \<Rightarrow> (case playlists h of
                   None \<Rightarrow> (Inl TypeError :: error + ref option)
                 | Some ld \<Rightarrow> Inr (ld_media ld)))"
  from assms obtain c where c: "current = Inr c"
    unfolding blacklistCurrentPlaylist_def current_def[symmetric] by (cases current) auto
  show ?thesis
  proof (cases c)
    case None
    with assms c have "endOfStream (h\<lparr>hls_error := Some err\<rparr>) (Some ''network'') = Inr h'"
      unfolding blacklistCurrentPlaylist_def current_def[symmetric] by simp
    from endOfStream_keyQuiet[OF this] show ?thesis by (simp add: keyQuiet_def keyRequestsFor_def)
  next
    case (Some p)
    define h1 where "h1 = h\<lparr>clockReads := Suc (clockReads h),
        plHeap := (plHeap h)(p := (plHeap h p)
          \<lparr>excludeUntil := Some (Num (clock env (clockReads h) + blacklistDuration))\<rparr>)\<rparr>"
    have q1: "keyQuiet h h1" by (simp add: h1_def keyQuiet_def keyRequestsFor_def)
    from assms c Some have b: "(case selectPlaylist env h1 of
                Inl e \<Rightarrow> Inl e
              | Inr (Some nextPlaylist, h2) \<Rightarrow>
                  mediaCall env
                    (h2\<lparr>effects := effects h2 @
                        [Warn ''Problem encountered with the current HLS playlist. Switching to another playlist.'']\<rparr>)
                    (Some nextPlaylist)
              | Inr (None, h2) \<Rightarrow>
                  endOfStream
                    (h2\<lparr>effects := effects h2 @
                        [Warn ''Problem encountered with the current HLS playlist. No suitable alternatives found.''],
                        hls_error := Some err\<rparr>)
                    (Some ''network'')) = Inr h'"
      unfolding blacklistCurrentPlaylist_def current_def[symmetric] h1_def by (simp add: Let_def)
    then obtain r h2 where s: "selectPlaylist env h1 = Inr (r, h2)"
      by (cases "selectPlaylist env h1") auto
    from selectPlaylist_keyQuiet[OF s] have q2: "keyQuiet h1 h2" .
    show ?thesis
    proof (cases r)
      case None
      with b s have "endOfStream
                    (h2\<lparr>effects := effects h2 @
                        [Warn ''Problem encountered with the current HLS playlist. No suitable alternatives found.''],
                        hls_error := Some err\<rparr>)
                    (Some ''network'') = Inr h'" by simp
      from endOfStream_keyQuiet[OF this] have "keyQuiet h2 h'"
        by (simp add: keyQuiet_def keyRequestsFor_def)
      with q1 q2 show ?thesis by (blast intro: keyQuiet_trans)
    next
      case (Some n)
      with b s have "mediaCall env
                    (h2\<lparr>effects := effects h2 @
                        [Warn ''Problem encountered with the current HLS playlist. Switching to another playlist.'']\<rparr>)
                    (Some n) = Inr h'" by simp
      from mediaCall_keyQuiet[OF this] have "keyQuiet h2 h'"
        by (simp add: keyQuiet_def keyRequestsFor_def)
      with q1 q2 show ?thesis by (blast intro: keyQuiet_trans)
    qed
  qed
qed

lemma keyQuiet_step:
  "keyHeap h1 = keyHeap h \<Longrightarrow> (\<And>k. keyRequestsFor k h1 = keyRequestsFor k h) \<Longrightarrow>
     keyQuiet h1 h' \<Longrightarrow> keyQuiet h h'"
  by (simp add: keyQuiet_def)

lemma drainBuffer_keyQuiet: "drainBuffer env h = Inr h' \<Longrightarrow> keyQuiet h h'"
  unfolding drainBuffer_def
  by (auto simp: Let_def keyQuiet_refl keyQuiet_def[of h "_\<lparr>pendingSegment := _, effects := _\<rparr>"]
        keyQuiet_def[of h "_\<lparr>pendingSegment := _, nextRef := _, effects := _\<rparr>"]
        keyRequestsFor_def
      split: option.splits if_splits tsOffset.splits
      dest: blacklistCurrentPlaylist_keyQuiet)

lemma keyRequestsFor_simps:
  "keyRequestsFor k (h\<lparr>effects := es\<rparr>) = filter (isKeyRequestFor k) es"
  "effects h' = effects h \<Longrightarrow> keyRequestsFor k h' = keyRequestsFor k h"
  by (simp_all add: keyRequestsFor_def)

lemma checkBuffer_keyQuiet: "checkBuffer env h = Inr h' \<Longrightarrow> keyQuiet h h'"
proof -
  assume a: "checkBuffer env h = Inr h'"
  define h1 where "h1 = (case checkBufferTimeout h of
                  None \<Rightarrow> h
                | Some t \<Rightarrow>
                    h\<lparr>checkBufferTimeout := None, effects := effects h @ [ClearTimeout t]\<rparr>)"
  have q1: "keyQuiet h h1"
    by (auto simp: h1_def keyQuiet_def keyRequestsFor_def split: option.splits)
  from a obtain h2 h3 where f: "fillBuffer env h1 None = Inr h2" and d: "drainBuffer env h2 = Inr h3"
    and h': "h' = h3\<lparr>checkBufferTimeout := Some (nextRef h3), nextRef := Suc (nextRef h3),
                      effects := effects h3 @ [SetTimeout (nextRef h3) bufferCheckInterval]\<rparr>"
    unfolding checkBuffer_def Let_def h1_def[symmetric] by (auto split: sum.splits)
  from h' have q4: "keyQuiet h3 h'" by (simp add: keyQuiet_def keyRequestsFor_def)
  from q1 fillBuffer_keyQuiet[OF f] drainBuffer_keyQuiet[OF d] q4 show ?thesis
    by (blast intro: keyQuiet_trans)
qed

lemma decrypterCallback_keyQuiet: "keyQuiet h (decrypterCallback h r err bytes)"
  by (auto simp: decrypterCallback_def keyQuiet_def keyRequestsFor_def Let_def
      split: option.splits)

lemma setDurationCallback_keyQuiet: "setDurationCallback h d = Inr h' \<Longrightarrow> keyQuiet h h'"
  by (auto simp: setDurationCallback_def keyQuiet_def keyRequestsFor_def split: option.splits)

lemma updateDuration_keyQuiet: "updateDuration env h p = Inr h' \<Longrightarrow> keyQuiet h h'"
  by (auto simp: updateDuration_def keyQuiet_def keyRequestsFor_def Let_def
      split: option.splits if_splits)

lemma cancelled_keyQuiet: "keyQuiet h (cancelled h)"
  by (auto simp: cancelled_def keyQuiet_def keyRequestsFor_def split: option.splits)

lemma setCurrentTime_keyQuiet: "setCurrentTime env h t = Inr (r, h') \<Longrightarrow> keyQuiet h h'"
proof -
  assume a: "setCurrentTime env h t = Inr (r, h')"
  show ?thesis
  proof (cases "h' = h")
    case True
    then show ?thesis by (simp add: keyQuiet_refl)
  next
    case False
    with a obtain idx where "fillBuffer env (cancelled h) idx = Inr h'"
      unfolding setCurrentTime_def Let_def cancel_both
      by (auto split: option.splits if_splits sum.splits)
    from fillBuffer_keyQuiet[OF this] cancelled_keyQuiet[of h] show ?thesis
      by (blast intro: keyQuiet_trans)
  qed
qed

lemma loadSegmentCallback_keyQuiet:
  assumes "loadSegmentCallback env h segmentInfo seg err rq = Inr h'"
  shows "keyQuiet h h'"
proof (cases "segmentXhr h = None \<or> Some (rq_ref rq) \<noteq> segmentXhr h")
  case True
  with assms show ?thesis by (simp add: loadSegmentCallback_def keyQuiet_refl)
next
  case cur: False
  define h1 where "h1 = h\<lparr>segmentXhr := None\<rparr>"
  have q1: "keyQuiet h h1" by (simp add: h1_def keyQuiet_def keyRequestsFor_def)
  consider (timedout) "rq_timedout rq"
    | (error) "\<not> rq_timedout rq" "\<not> requestAborted h1 rq \<and> err"
    | (empty) "\<not> rq_timedout rq" "\<not> (\<not> requestAborted h1 rq \<and> err)" "rq_response rq = None"
    | (ok) "\<not> rq_timedout rq" "\<not> (\<not> requestAborted h1 rq \<and> err)" "rq_response rq \<noteq> None"
    by blast
  then show ?thesis
  proof cases
    case timedout
    with assms cur obtain p h2 where s: "selectPlaylist env (h1\<lparr>bandwidth := 1\<rparr>) = Inr (p, h2)"
      and m: "mediaCall env h2 p = Inr h'"
      unfolding loadSegmentCallback_def Let_def h1_def[symmetric]
      by (auto split: sum.splits)
    have "keyQuiet h1 (h1\<lparr>bandwidth := 1\<rparr>)" by (simp add: keyQuiet_def keyRequestsFor_def)
    with q1 selectPlaylist_keyQuiet[OF s] mediaCall_keyQuiet[OF m] show ?thesis
      by (blast intro: keyQuiet_trans)
  next
    case error
    with assms cur have "blacklistCurrentPlaylist env h1
                \<lparr>err_playlist = None, err_status = Some (rq_status rq),
                 err_message = ''HLS segment request error at URL: '' @ si_uri segmentInfo,
                 err_code = Some (if rq_status rq \<ge> 500 then 4 else 2)\<rparr> = Inr h'"
      unfolding loadSegmentCallback_def Let_def h1_def[symmetric] by simp
    from blacklistCurrentPlaylist_keyQuiet[OF this] q1 show ?thesis
      by (blast intro: keyQuiet_trans)
  next
    case empty
    with assms cur have "h' = h1"
      unfolding loadSegmentCallback_def Let_def h1_def[symmetric] by simp
    with q1 show ?thesis by simp
  next
    case ok
    define h3 where "h3 = (setBandwidth (h1\<lparr>lastSegmentLoaded := Some seg\<rparr>) rq)
        \<lparr>pendingSegment := Some (if seg_key seg \<noteq> None
                      then segmentInfo\<lparr>si_encryptedBytes := rq_response rq\<rparr>
                      else segmentInfo\<lparr>si_bytes := rq_response rq\<rparr>),
         effects := effects (setBandwidth (h1\<lparr>lastSegmentLoaded := Some seg\<rparr>) rq) @
           [Trigger ''progress'']\<rparr>"
    have q3: "keyQuiet h1 h3"
      by (simp add: h3_def setBandwidth_def keyQuiet_def keyRequestsFor_def)
    from assms cur ok obtain h4 p h5 where d: "drainBuffer env h3 = Inr h4"
      and s: "selectPlaylist env h4 = Inr (p, h5)" and m: "mediaCall env h5 p = Inr h'"
      unfolding loadSegmentCallback_def Let_def h1_def[symmetric] h3_def[symmetric]
      by (auto split: sum.splits)
    from q1 q3 drainBuffer_keyQuiet[OF d] selectPlaylist_keyQuiet[OF s] mediaCall_keyQuiet[OF m]
    show ?thesis by (blast intro: keyQuiet_trans)
  qed
qed

lemma updateEndHandler_keyQuiet:
  assumes "updateEndHandler env h = Inr h'"
  shows "keyQuiet h h'"
proof (cases "pendingSegment h")
  case None
  with assms show ?thesis by (auto simp: updateEndHandler_def keyQuiet_def keyRequestsFor_def)
next
  case (Some segmentInfo)
  show ?thesis
  proof (cases "si_buffered segmentInfo")
    case None
    with assms Some show ?thesis by (simp add: updateEndHandler_def keyQuiet_refl)
  next
    case before: (Some before)
    define h1 where "h1 = h\<lparr>pendingSegment := None\<rparr>"
    have q1: "keyQuiet h h1" by (simp add: h1_def keyQuiet_def keyRequestsFor_def)
    define h2 where "h2 =
      (if t_seeking (tech h1) \<and> length (findBufferedRange h1 None) = 0 then
         (case seekable env h1 of
            [] \<Rightarrow> h1
          | (start, e) # rest \<Rightarrow>
              if t_currentTime (tech h1) < start then
                (case findNextBufferedRange h1 None of
                   [] \<Rightarrow> h1
                 | (nextStart, ne) # nrest \<Rightarrow>
                     h1\<lparr>tech := techSetCurrentTime env (tech h1)
                             (nextStart + TIME_FUDGE_FACTOR),
                        effects := effects h1 @
                          [Log ''tried seeking but that was too early, retrying'',
                           TechSetCurrentTime
                             (nextStart + TIME_FUDGE_FACTOR)]\<rparr>)
              else h1)
       else h1)"
    have q2: "keyQuiet h1 h2"
      by (auto simp: h2_def keyQuiet_def keyRequestsFor_def split: list.splits)
    from q1 q2 have q12: "keyQuiet h h2" by (rule keyQuiet_trans)
    have q3: "keyQuiet h2 (h2\<lparr>plHeap := f\<rparr>)" for f
      by (simp add: keyQuiet_def keyRequestsFor_def)
    from assms Some before
    have "(\<exists>r. endOfStream h1 r = Inr h') \<or> (\<exists>i. fillBuffer env h1 i = Inr h') \<or>
          (\<exists>f r. endOfStream (h2\<lparr>plHeap := f\<rparr>) r = Inr h') \<or>
          (\<exists>f i. fillBuffer env (h2\<lparr>plHeap := f\<rparr>) i = Inr h') \<or>
          (\<exists>f p h4 i. updateDuration env (h2\<lparr>plHeap := f\<rparr>) p = Inr h4 \<and>
              fillBuffer env h4 i = Inr h')"
      unfolding updateEndHandler_def option.case Let_def h1_def[symmetric] h2_def[symmetric]
      by (auto split: sum.splits option.splits if_splits)
    then show ?thesis
    proof (elim disjE exE conjE)
      fix r assume "endOfStream h1 r = Inr h'"
      from endOfStream_keyQuiet[OF this] q1 show ?thesis by (blast intro: keyQuiet_trans)
    next
      fix i assume "fillBuffer env h1 i = Inr h'"
      from fillBuffer_keyQuiet[OF this] q1 show ?thesis by (blast intro: keyQuiet_trans)
    next
      fix f r assume "endOfStream (h2\<lparr>plHeap := f\<rparr>) r = Inr h'"
      from endOfStream_keyQuiet[OF this] q12 q3[of f] show ?thesis
        by (blast intro: keyQuiet_trans)
    next
      fix f i assume "fillBuffer env (h2\<lparr>plHeap := f\<rparr>) i = Inr h'"
      from fillBuffer_keyQuiet[OF this] q12 q3[of f] show ?thesis
        by (blast intro: keyQuiet_trans)
    next
      fix f p h4 i
      assume "updateDuration env (h2\<lparr>plHeap := f\<rparr>) p = Inr h4" "fillBuffer env h4 i = Inr h'"
      from updateDuration_keyQuiet[OF this(1)] fillBuffer_keyQuiet[OF this(2)] q12 q3[of f]
      show ?thesis by (blast intro: keyQuiet_trans)
    qed
  qed
qed

lemma receiveKey_keyStable:
  assumes "receiveKey env h keyRecieved seg err rq = Inr h'"
  shows "keyStable k h h'"
proof -
  define h1 where "h1 = h\<lparr>keyXhr := None\<rparr>"
  define good where "good =
    (if err then None
     else (case rq_response rq of
             None \<Rightarrow> None
           | Some bs \<Rightarrow> if length bs \<noteq> 16 then None else Some bs))"
  show ?thesis
  proof (cases good)
    case None
    define h2 where "h2 = h1\<lparr>keyHeap := (keyHeap h1)(keyRecieved :=
        (keyHeap h1 keyRecieved)\<lparr>retries :=
           Some ((case retries (keyHeap h1 keyRecieved) of None \<Rightarrow> 0 | Some n \<Rightarrow> n) + 1)\<rparr>)\<rparr>"
    have s2: "keyStable k h h2"
      by (auto simp: h2_def h1_def keyStable_def keyFailed_def keyRequestsFor_def
          split: option.splits)
    from assms None have "(if \<not> requestAborted h2 rq then fetchKey env h2 seg else Inr h2) = Inr h'"
      unfolding receiveKey_def Let_def h1_def[symmetric] good_def[symmetric] h2_def[symmetric]
      by simp
    then have "keyQuiet h2 h'"
      by (auto simp: keyQuiet_refl dest: fetchKey_keyQuiet split: if_splits)
    with s2 show ?thesis by (blast intro: keyStable_trans keyQuiet_stable)
  next
    case (Some bs)
    with assms obtain ws where ws: "keyWords bs = Inr ws"
      unfolding receiveKey_def Let_def good_def[symmetric] by (cases "keyWords bs") auto
    define h2 where "h2 = h1\<lparr>keyHeap := (keyHeap h1)(keyRecieved :=
                   (keyHeap h1 keyRecieved)\<lparr>key_bytes := Some ws\<rparr>)\<rparr>"
    have s2: "keyStable k h h2"
      by (auto simp: h2_def h1_def keyStable_def keyFailed_def keyRequestsFor_def)
    from assms Some ws have "checkBuffer env h2 = Inr h'"
      unfolding receiveKey_def Let_def h1_def[symmetric] good_def[symmetric]
      by (simp add: h2_def)
    from checkBuffer_keyQuiet[OF this] s2 show ?thesis
      by (blast intro: keyStable_trans keyQuiet_stable)
  qed
qed

lemma step_keyStable: "step env h ev = Inr h' \<Longrightarrow> keyStable k h h'"
proof (cases ev)
  case (EvFillBuffer i)
  assume "step env h ev = Inr h'"
  with EvFillBuffer show ?thesis by (simp add: fillBuffer_keyQuiet keyQuiet_stable)
next
  case EvDrainBuffer
  assume "step env h ev = Inr h'"
  with EvDrainBuffer show ?thesis by (simp add: drainBuffer_keyQuiet keyQuiet_stable)
next
  case EvCheckBuffer
  assume "step env h ev = Inr h'"
  with EvCheckBuffer show ?thesis by (simp add: checkBuffer_keyQuiet keyQuiet_stable)
next
  case (EvSetCurrentTime t)
  assume "step env h ev = Inr h'"
  with EvSetCurrentTime obtain r where "setCurrentTime env h t = Inr (r, h')"
    by (auto split: sum.splits)
  then show ?thesis by (simp add: setCurrentTime_keyQuiet keyQuiet_stable)
next
  case (EvBlacklist e)
  assume "step env h ev = Inr h'"
  with EvBlacklist show ?thesis by (simp add: blacklistCurrentPlaylist_keyQuiet keyQuiet_stable)
next
  case EvUpdateEnd
  assume "step env h ev = Inr h'"
  with EvUpdateEnd show ?thesis by (simp add: updateEndHandler_keyQuiet keyQuiet_stable)
next
  case (EvSegmentResponse r e rq)
  assume "step env h ev = Inr h'"
  with EvSegmentResponse show ?thesis
    by (auto simp: keyQuiet_refl keyQuiet_stable split: option.splits
        dest!: loadSegmentCallback_keyQuiet)
next
  case (EvKeyResponse r e rq)
  assume "step env h ev = Inr h'"
  with EvKeyResponse show ?thesis
    by (auto simp: keyQuiet_refl keyQuiet_stable split: option.splits
        dest!: receiveKey_keyStable[where k = k])
next
  case (EvDecrypted r e bs)
  assume "step env h ev = Inr h'"
  with EvDecrypted show ?thesis by (auto simp: decrypterCallback_keyQuiet keyQuiet_stable)
next
  case (EvSourceOpen d)
  assume "step env h ev = Inr h'"
  with EvSourceOpen show ?thesis by (simp add: setDurationCallback_keyQuiet keyQuiet_stable)
next
  case (EvWorld t ms sb ld heap perm)
  assume "step env h ev = Inr h'"
  with EvWorld show ?thesis by (auto simp: keyStable_def keyRequestsFor_def)
qed

lemma run_keyStable: "run env h evs = Inr h' \<Longrightarrow> keyStable k h h'"
proof (induction evs arbitrary: h)
  case Nil
  then show ?case by (simp add: keyStable_def)
next
  case (Cons ev evs)
  then obtain h1 where s: "step env h ev = Inr h1" and r: "run env h1 evs = Inr h'"
    by (auto split: sum.splits)
  from step_keyStable[OF s] Cons.IH[OF r] show ?case by (rule keyStable_trans)
qed

lemma uint32Bytes_compose:
  "uint32Bytes (push_bit 24 (ucast b0) OR push_bit 16 (ucast b1) OR push_bit 8 (ucast b2) OR ucast b3)
     = [b0, b1, b2, (b3 :: 8 word)]"
  unfolding uint32Bytes_def
  by (simp; intro conjI bit_word_eqI; auto simp: bit_simps dest: bit_imp_le_length)

lemma sixteen_bytes:
  assumes "length (bs :: 8 word list) = 16"
  obtains b0 b1 b2 b3 b4 b5 b6 b7 b8 b9 b10 b11 b12 b13 b14 b15
  where "bs = [b0, b1, b2, b3, b4, b5, b6, b7, b8, b9, b10, b11, b12, b13, b14, b15]"
  using assms that by (auto simp: eval_nat_numeral length_Suc_conv)

lemma keyWords_sixteen:
  assumes "length bs = 16"
  shows "\<exists>ws. keyWords bs = Inr ws \<and> length ws = 4 \<and> concat (map uint32Bytes ws) = bs"
proof -
  from assms obtain b0 b1 b2 b3 b4 b5 b6 b7 b8 b9 b10 b11 b12 b13 b14 b15
    where bs: "bs = [b0, b1, b2, b3, b4, b5, b6, b7, b8, b9, b10, b11, b12, b13, b14, b15]"
    by (rule sixteen_bytes)
  show ?thesis
    unfolding bs by (simp add: keyWords_def getUint32_def uint32Bytes_compose)
qed

lemma checkBuffer_keyHeap: "checkBuffer env h = Inr h' \<Longrightarrow> keyHeap h' = keyHeap h"
  using checkBuffer_keyQuiet[of env h h'] by (simp add: keyQuiet_def)

lemma keyFailed_iff: "keyFailed k \<longleftrightarrow> (\<exists>n\<ge>2. retries k = Some n)"
  by (auto simp: keyFailed_def split: option.splits)

text \<open>
  Claim C7. On an error, a missing body or a body that is not 16 bytes long, \<^verbatim>\<open>receiveKey\<close>
  clears the outstanding key request, adds one to the key's retry counter and, unless the
  request was aborted, calls \<^verbatim>\<open>fetchKey_\<close> again at once. For the key of that request, not yet
  downloaded, the call issues a new request while the counter is below 2, and none once it
  has reached 2: the key has then failed. A key has failed exactly when its counter is 2 or
  more; \<^verbatim>\<open>fetchKey_\<close> does nothing for it, and in every session that follows, whatever its
  events, the key stays failed and no request is issued for it. On a response of 16 bytes
  the key gets four words that hold exactly those 16 bytes, \<^verbatim>\<open>checkBuffer_\<close> runs, and the
  bytes are still there when it returns.
\<close>

theorem fetchKey_bounded_retries:
  "(keyResponseBad err rq \<longrightarrow>
      receiveKey env h k seg err rq =
        (if requestAborted h rq then Inr (afterKeyFailure h k)
         else fetchKey env (afterKeyFailure h k) seg))
   \<and> (keyResponseBad err rq \<and> \<not> requestAborted h rq \<and> seg_key seg = Some k \<and>
       key_bytes (keyHeap h k) = None \<and> playlists h = Some ld \<and> ld_media ld = Some m \<longrightarrow>
        (if retriesOrZero (keyHeap h k) + 1 < 2 then
           \<exists>url. receiveKey env h k seg err rq =
             Inr ((afterKeyFailure h k)
                    \<lparr>keyXhr := Some (nextRef h), nextRef := Suc (nextRef h),
                     keyClosures := (keyClosures h)(nextRef h \<mapsto> (k, seg)),
                     effects := effects h @
                       [XhrKey (nextRef h) k url (options_withCredentials h)]\<rparr>)
         else receiveKey env h k seg err rq = Inr (afterKeyFailure h k) \<and>
              keyFailed (keyHeap (afterKeyFailure h k) k)))
   \<and> (keyFailed (keyHeap h k) \<longleftrightarrow> (\<exists>n\<ge>2. retries (keyHeap h k) = Some n))
   \<and> (keyFailed (keyHeap h k) \<and> seg_key seg = Some k \<longrightarrow> fetchKey env h seg = Inr h)
   \<and> (keyFailed (keyHeap h k) \<and> run env h evs = Inr h' \<longrightarrow>
        keyFailed (keyHeap h' k) \<and> keyRequestsFor k h' = keyRequestsFor k h)
   \<and> (\<not> err \<and> rq_response rq = Some bs \<and> length bs = 16 \<longrightarrow>
        (\<exists>ws. keyWords bs = Inr ws \<and> length ws = 4 \<and> concat (map uint32Bytes ws) = bs \<and>
           receiveKey env h k seg err rq = checkBuffer env (afterKeySuccess h k ws) \<and>
           (\<forall>h2. receiveKey env h k seg err rq = Inr h2 \<longrightarrow>
                 key_bytes (keyHeap h2 k) = Some ws)))"
proof (intro conjI impI)
  assume "keyResponseBad err rq"
  then have bad: "(if err then None
               else (case rq_response rq of
                       None \<Rightarrow> None
                     | Some bs \<Rightarrow> if length bs \<noteq> 16 then None else Some bs)) = None"
    by (auto simp: keyResponseBad_def split: option.splits)
  show "receiveKey env h k seg err rq =
        (if requestAborted h rq then Inr (afterKeyFailure h k)
         else fetchKey env (afterKeyFailure h k) seg)"
    unfolding receiveKey_def Let_def bad
    by (simp add: afterKeyFailure_def retriesOrZero_def requestAborted_def)
next
  assume a: "keyResponseBad err rq \<and> \<not> requestAborted h rq \<and> seg_key seg = Some k \<and>
       key_bytes (keyHeap h k) = None \<and> playlists h = Some ld \<and> ld_media ld = Some m"
  then have bad: "(if err then None
               else (case rq_response rq of
                       None \<Rightarrow> None
                     | Some bs \<Rightarrow> if length bs \<noteq> 16 then None else Some bs)) = None"
    by (auto simp: keyResponseBad_def split: option.splits)
  have r: "receiveKey env h k seg err rq = fetchKey env (afterKeyFailure h k) seg"
    unfolding receiveKey_def Let_def bad
    using a by (simp add: afterKeyFailure_def retriesOrZero_def requestAborted_def)
  obtain url where url: "playlistUriToUrl env (afterKeyFailure h k)
      (key_uri (keyHeap (afterKeyFailure h k) k)) = Inr url"
    using a playlistUriToUrl_total[of "afterKeyFailure h k" ld m env]
    by (auto simp: afterKeyFailure_def)
  show "if retriesOrZero (keyHeap h k) + 1 < 2 then
           \<exists>url. receiveKey env h k seg err rq =
             Inr ((afterKeyFailure h k)
                    \<lparr>keyXhr := Some (nextRef h), nextRef := Suc (nextRef h),
                     keyClosures := (keyClosures h)(nextRef h \<mapsto> (k, seg)),
                     effects := effects h @
                       [XhrKey (nextRef h) k url (options_withCredentials h)]\<rparr>)
         else receiveKey env h k seg err rq = Inr (afterKeyFailure h k) \<and>
              keyFailed (keyHeap (afterKeyFailure h k) k)"
  proof (cases "retriesOrZero (keyHeap h k) + 1 < 2")
    case True
    then have nf: "\<not> keyFailed (keyHeap (afterKeyFailure h k) k)"
      by (simp add: keyFailed_def afterKeyFailure_def)
    have "fetchKey env (afterKeyFailure h k) seg =
        Inr ((afterKeyFailure h k)
                    \<lparr>keyXhr := Some (nextRef h), nextRef := Suc (nextRef h),
                     keyClosures := (keyClosures h)(nextRef h \<mapsto> (k, seg)),
                     effects := effects h @
                       [XhrKey (nextRef h) k url (options_withCredentials h)]\<rparr>)"
      unfolding fetchKey_def using a nf url by (simp add: afterKeyFailure_def)
    with r True show ?thesis by auto
  next
    case False
    then have f: "keyFailed (keyHeap (afterKeyFailure h k) k)"
      by (simp add: keyFailed_def afterKeyFailure_def)
    then have "fetchKey env (afterKeyFailure h k) seg = Inr (afterKeyFailure h k)"
      unfolding fetchKey_def using a by (simp add: afterKeyFailure_def)
    with r f False show ?thesis by simp
  qed
next
  show "keyFailed (keyHeap h k) \<longleftrightarrow> (\<exists>n\<ge>2. retries (keyHeap h k) = Some n)"
    by (rule keyFailed_iff)
next
  assume "keyFailed (keyHeap h k) \<and> seg_key seg = Some k"
  then show "fetchKey env h seg = Inr h"
    by (simp add: fetchKey_def split: option.splits)
next
  assume a: "keyFailed (keyHeap h k) \<and> run env h evs = Inr h'"
  then have "run env h evs = Inr h'" by simp
  then have "keyStable k h h'" by (rule run_keyStable)
  with a show "keyFailed (keyHeap h' k)" and "keyRequestsFor k h' = keyRequestsFor k h"
    by (simp_all add: keyStable_def)
next
  assume a: "\<not> err \<and> rq_response rq = Some bs \<and> length bs = 16"
  then obtain ws where ws: "keyWords bs = Inr ws" "length ws = 4"
    "concat (map uint32Bytes ws) = bs"
    using keyWords_sixteen by blast
  have r: "receiveKey env h k seg err rq = checkBuffer env (afterKeySuccess h k ws)"
    unfolding receiveKey_def Let_def using a ws(1) by (simp add: afterKeySuccess_def)
  have "key_bytes (keyHeap h2 k) = Some ws" if "receiveKey env h k seg err rq = Inr h2" for h2
    using that r checkBuffer_keyHeap[of env "afterKeySuccess h k ws" h2]
    by (simp add: afterKeySuccess_def)
  with ws r show "\<exists>ws. keyWords bs = Inr ws \<and> length ws = 4 \<and> concat (map uint32Bytes ws) = bs \<and>
           receiveKey env h k seg err rq = checkBuffer env (afterKeySuccess h k ws) \<and>
           (\<forall>h2. receiveKey env h k seg err rq = Inr h2 \<longrightarrow>
                 key_bytes (keyHeap h2 k) = Some ws)"
    by blast
qed

lemmas handler_eval =
  fillBuffer.simps exHandler_def exEnv_def exMedia_def exKeySegment_def exFailedRequest_def
  resolveMediaIndex_def findBufferedRange_def filterBufferedRanges_def segmentAt_def
  playlistUriToUrl_def sameAsLastSegmentLoaded_def loadSegment_def newSegmentInfo_def
  seekable_def segmentXhrHeaders_def fetchKey_def keyFailed_def receiveKey_def
  requestAborted_def setCurrentTime_def cancelSegmentXhr_def cancelKeyXhr_def
  keyRequestsFor_def Let_def

lemma exHandler_key_session:
  "\<exists>h1. run exEnv (exHandler [exKeySegment] [])
          [EvFillBuffer None, EvKeyResponse 1 True exFailedRequest,
           EvKeyResponse 3 True exFailedRequest] = Inr h1 \<and>
        retries (keyHeap h1 7) = Some 2 \<and>
        keyRequestsFor 7 h1 = [XhrKey 1 7 ''key.bin'' None, XhrKey 3 7 ''key.bin'' None] \<and>
        keyXhr h1 = None \<and>
        (\<exists>h2. run exEnv h1 [EvSetCurrentTime 5, EvFillBuffer None] = Inr h2)"
  by (simp add: handler_eval)

theorem fetchKey_bounded_retries_witness:
  "\<exists>h1 h2. run exEnv (exHandler [exKeySegment] [])
          [EvFillBuffer None, EvKeyResponse 1 True exFailedRequest,
           EvKeyResponse 3 True exFailedRequest] = Inr h1 \<and>
        keyFailed (keyHeap h1 7) \<and>
        keyRequestsFor 7 h1 = [XhrKey 1 7 ''key.bin'' None, XhrKey 3 7 ''key.bin'' None] \<and>
        run exEnv h1 [EvSetCurrentTime 5, EvFillBuffer None] = Inr h2 \<and>
        keyFailed (keyHeap h2 7) \<and>
        keyRequestsFor 7 h2 = [XhrKey 1 7 ''key.bin'' None, XhrKey 3 7 ''key.bin'' None]"
proof -
  from exHandler_key_session obtain h1 h2 where
    h1: "run exEnv (exHandler [exKeySegment] [])
          [EvFillBuffer None, EvKeyResponse 1 True exFailedRequest,
           EvKeyResponse 3 True exFailedRequest] = Inr h1"
      "retries (keyHeap h1 7) = Some 2"
      "keyRequestsFor 7 h1 = [XhrKey 1 7 ''key.bin'' None, XhrKey 3 7 ''key.bin'' None]"
    and h2: "run exEnv h1 [EvSetCurrentTime 5, EvFillBuffer None] = Inr h2"
    by blast
  note t = fetchKey_bounded_retries
    [where h = h1 and k = 7 and env = exEnv and evs = "[EvSetCurrentTime 5, EvFillBuffer None]"
       and h' = h2]
  from t h1(2) have f: "keyFailed (keyHeap h1 7)" by simp
  with t h2 have "keyFailed (keyHeap h2 7) \<and> keyRequestsFor 7 h2 = keyRequestsFor 7 h1"
    by blast
  with h1 h2 f show ?thesis by auto
qed

end
